(* ===== verification/Prelude.thy ===== *)
theory Prelude
  imports Main "HOL-Library.Word" "HOL-Library.List_Lexorder"
begin

text \<open>
  Shared ground of the development: the machine integer types, the error values
  of the program, the outcome of a Rust call (a value, an error that \<open>?\<close>
  propagates, or a panic), the two sequencing operators the component models are
  written with, and the generic lemmas on byte strings and lists that their
  proofs use.
\<close>

section \<open>Machine types\<close>

type_synonym byte = "8 word"
type_synonym u64 = "64 word"
type_synonym usize = "64 word"

named_theorems eval_simps \<open>definitions unfolded to evaluate a closed instance\<close>
named_theorems outcome_inv \<open>inversion of successful outcomes\<close>

section \<open>Errors and outcomes\<close>

text \<open>
  \<open>std::io::ErrorKind\<close>: the kinds the program distinguishes or the standard
  library produces for it, and every other kind by number.
\<close>

datatype io_error_kind = Interrupted | UnexpectedEof | NotFound | Other_io nat

datatype b64_error = InvalidEncoding | InvalidLength

text \<open>Arguments of a formatted message.\<close>

datatype fmt_arg = Str string | Num nat | Bytes "byte list"

text \<open>
  \<open>anyhow::Error\<close>: an error of the standard library, of a crate, a formatted
  message (\<open>bail!\<close>, \<open>ensure!\<close>, \<open>anyhow!\<close>), or an error under a context.
  A message is its format string and the values it interpolates.
\<close>

datatype error =
    Io io_error_kind
  | B64 b64_error
  | TryFromSlice
  | SendError
  | Foreign nat
  | Fmt string "fmt_arg list"
  | Context string "fmt_arg list" error

datatype 'a outcome = Ok 'a | Err error | Panic string

primrec bind_outcome :: "'a outcome \<Rightarrow> ('a \<Rightarrow> 'b outcome) \<Rightarrow> 'b outcome" where
  "bind_outcome (Ok x) f = f x"
| "bind_outcome (Err e) f = Err e"
| "bind_outcome (Panic s) f = Panic s"

primrec context_outcome :: "string \<Rightarrow> fmt_arg list \<Rightarrow> 'a outcome \<Rightarrow> 'a outcome" where
  "context_outcome c as (Ok x) = Ok x"
| "context_outcome c as (Err e) = Err (Context c as e)"
| "context_outcome c as (Panic s) = Panic s"

text \<open>\<open>Result::unwrap\<close> and \<open>expect\<close>: an error becomes a panic.\<close>

primrec unwrap_outcome :: "string \<Rightarrow> 'a outcome \<Rightarrow> 'a outcome" where
  "unwrap_outcome s (Ok x) = Ok x"
| "unwrap_outcome s (Err e) = Panic s"
| "unwrap_outcome s (Panic t) = Panic t"

definition of_sum :: "('e \<Rightarrow> error) \<Rightarrow> 'e + 'a \<Rightarrow> 'a outcome" where
  "of_sum f r = (case r of Inl e \<Rightarrow> Err (f e) | Inr x \<Rightarrow> Ok x)"

text \<open>Sequencing of calls that thread a state of the environment.\<close>

definition bind_st ::
  "'a outcome \<times> 's \<Rightarrow> ('a \<Rightarrow> 's \<Rightarrow> 'b outcome \<times> 's) \<Rightarrow> 'b outcome \<times> 's" where
  "bind_st r f = (case r of (Ok x, s) \<Rightarrow> f x s | (Err e, s) \<Rightarrow> (Err e, s)
     | (Panic m, s) \<Rightarrow> (Panic m, s))"

definition context_st ::
  "string \<Rightarrow> fmt_arg list \<Rightarrow> 'a outcome \<times> 's \<Rightarrow> 'a outcome \<times> 's" where
  "context_st c as r = (context_outcome c as (fst r), snd r)"

primrec is_Ok :: "'a outcome \<Rightarrow> bool" where
  "is_Ok (Ok x) = True"
| "is_Ok (Err e) = False"
| "is_Ok (Panic s) = False"

primrec is_Panic :: "'a outcome \<Rightarrow> bool" where
  "is_Panic (Ok x) = False"
| "is_Panic (Err e) = False"
| "is_Panic (Panic s) = True"

text \<open>
  A loop observed for finitely many rounds: either it has returned, or it is
  still running in the given state.
\<close>

datatype ('a, 's) loop_state = Returned 'a 's | Running 's

primrec loop_world :: "('a, 's) loop_state \<Rightarrow> 's" where
  "loop_world (Returned r s) = s"
| "loop_world (Running s) = s"

primrec still_running :: "('a, 's) loop_state \<Rightarrow> bool" where
  "still_running (Returned r s) = False"
| "still_running (Running s) = True"

section \<open>Lemmas on outcomes\<close>

lemma bind_outcome_Ok [simp]:
  "bind_outcome m f = Ok y \<longleftrightarrow> (\<exists>x. m = Ok x \<and> f x = Ok y)"
  by (cases m) auto

lemma context_outcome_Ok [simp]: "context_outcome c as m = Ok x \<longleftrightarrow> m = Ok x"
  by (cases m) auto

lemma context_outcome_Panic [simp]: "context_outcome c as m = Panic s \<longleftrightarrow> m = Panic s"
  by (cases m) auto

lemma context_outcome_Err [simp]:
  "context_outcome c as m = Err e \<longleftrightarrow> (\<exists>e'. m = Err e' \<and> e = Context c as e')"
  by (cases m) auto

lemma unwrap_outcome_Ok [simp]: "unwrap_outcome s m = Ok x \<longleftrightarrow> m = Ok x"
  by (cases m) auto

lemma unwrap_outcome_not_Err [simp]: "unwrap_outcome s m \<noteq> Err e"
  by (cases m) auto

lemma of_sum_simps [simp]:
  "of_sum f (Inr x) = Ok x" "of_sum f (Inl e) = Err (f e)"
  by (simp_all add: of_sum_def)

lemma of_sum_Ok [simp]: "of_sum f r = Ok x \<longleftrightarrow> r = Inr x"
  by (cases r) auto

lemma of_sum_not_Panic [simp]: "of_sum f r \<noteq> Panic s"
  by (cases r) auto

lemma bind_st_simps [simp]:
  "bind_st (Ok x, s) f = f x s"
  "bind_st (Err e, s) f = (Err e, s)"
  "bind_st (Panic m, s) f = (Panic m, s)"
  by (simp_all add: bind_st_def)

lemma bind_st_Ok [outcome_inv]:
  "bind_st r f = (Ok y, t) \<longleftrightarrow> (\<exists>x s. r = (Ok x, s) \<and> f x s = (Ok y, t))"
  by (cases r; cases "fst r") auto

lemma bind_st_Err [outcome_inv]:
  "fst (bind_st m f) = Err e \<longleftrightarrow>
     fst m = Err e \<or> (\<exists>x s. m = (Ok x, s) \<and> fst (f x s) = Err e)"
  by (cases m; cases "fst m") auto

lemma context_st_simps [simp]: "context_st c as (r, s) = (context_outcome c as r, s)"
  by (simp add: context_st_def)

lemma context_st_Ok [outcome_inv]: "context_st c as r = (Ok x, s) \<longleftrightarrow> r = (Ok x, s)"
  by (cases r) simp

lemma is_Ok_iff: "is_Ok m \<longleftrightarrow> (\<exists>x. m = Ok x)"
  by (cases m) auto

lemma is_Panic_iff: "is_Panic m \<longleftrightarrow> (\<exists>s. m = Panic s)"
  by (cases m) auto

section \<open>Byte strings\<close>

text \<open>\<open>String::as_bytes\<close>: a character of the model is one byte of the UTF-8 text.\<close>

definition as_bytes :: "string \<Rightarrow> byte list" where
  "as_bytes s = map (\<lambda>c. of_nat (of_char c)) s"

definition string_of_bytes :: "byte list \<Rightarrow> string" where
  "string_of_bytes bs = map (\<lambda>b. char_of (unat b)) bs"

text \<open>Overwriting the front of a slice, as a read into \<open>&mut buf[pos..]\<close> does.\<close>

definition write_at :: "nat \<Rightarrow> 'a list \<Rightarrow> 'a list \<Rightarrow> 'a list" where
  "write_at pos xs buf = take pos buf @ xs @ drop (pos + length xs) buf"

lemma length_as_bytes [simp]: "length (as_bytes s) = length s"
  by (simp add: as_bytes_def)

lemma length_string_of_bytes [simp]: "length (string_of_bytes bs) = length bs"
  by (simp add: string_of_bytes_def)

lemma byte_less_256 [simp]: "unat (b :: byte) < 256"
  using unsigned_less [of b, where ?'a = nat] by simp

lemma byte_of_char_of [simp]: "(of_nat (of_char (char_of (unat b) :: char)) :: byte) = b"
  by (simp add: of_char_of)

lemma as_bytes_string_of_bytes [simp]: "as_bytes (string_of_bytes bs) = bs"
  by (induction bs) (simp_all add: as_bytes_def string_of_bytes_def)

lemma length_write_at:
  "pos + length xs \<le> length buf \<Longrightarrow> length (write_at pos xs buf) = length buf"
  by (simp add: write_at_def)

lemma take_write_at:
  "pos \<le> length buf \<Longrightarrow> take (pos + length xs) (write_at pos xs buf) = take pos buf @ xs"
  by (simp add: write_at_def min_def)

lemma append_eq_same_length:
  "length xs = length xs' \<Longrightarrow> xs @ ys = xs' @ ys' \<longleftrightarrow> xs = xs' \<and> ys = ys'"
  by simp

lemma sort_pair: "sort [a, b] = (if a \<le> b then [a, b] else [b, a :: 'a :: linorder])"
  by auto

end
