(* ===== verification/Base64ct.thy ===== *)
theory Base64ct
  imports Prelude
begin

text \<open>
  The interface of the \<open>base64ct\<close> crate as the program uses it
  (\<open>Base64::encode\<close>, \<open>Base64::decode\<close>, \<open>Base64::encoded_len\<close> with the
  padded standard alphabet). The crate's code is not part of the repository, so
  its operations are parameters of every definition that calls them, and the
  locale \<open>base64ct\<close> states the documented behaviour the program relies on.
  The second half gives the RFC 4648 codec and interprets the locale on it, so
  the laws are known to be satisfiable by the encoding they describe.
\<close>

section \<open>The interface\<close>

text \<open>
  \<open>b64_encode bs cap\<close> writes into a buffer of \<open>cap\<close> bytes;
  \<open>b64_decode s cap\<close> returns the prefix of the buffer it has filled.
\<close>

record base64_ops =
  b64_encode :: "byte list \<Rightarrow> nat \<Rightarrow> b64_error + byte list"
  b64_decode :: "byte list \<Rightarrow> nat \<Rightarrow> b64_error + byte list"
  b64_encoded_len :: "byte list \<Rightarrow> nat"

definition padded_len :: "nat \<Rightarrow> nat" where
  "padded_len n = 4 * ((n + 2) div 3)"

text \<open>Upper and lower case letters, digits, plus, slash and the padding sign.\<close>

definition b64_alphabet :: "byte set" where
  "b64_alphabet = {65..90} \<union> {97..122} \<union> {48..57} \<union> {43, 47, 61}"

locale base64ct =
  fixes B :: base64_ops
  assumes encode_total: "padded_len (length bs) \<le> cap \<Longrightarrow> \<exists>s. b64_encode B bs cap = Inr s"
    and encode_length: "b64_encode B bs cap = Inr s \<Longrightarrow> length s = padded_len (length bs)"
    and encode_alphabet: "b64_encode B bs cap = Inr s \<Longrightarrow> set s \<subseteq> b64_alphabet"
    and decode_encode: "b64_encode B bs cap = Inr s \<Longrightarrow> length bs \<le> cap' \<Longrightarrow>
          b64_decode B s cap' = Inr bs"
    and decode_fits: "b64_decode B s cap = Inr bs \<Longrightarrow> length bs \<le> cap"
    and decode_length: "b64_decode B s cap = Inr bs \<Longrightarrow> length s = padded_len (length bs)"
    and encoded_len: "b64_encoded_len B bs = padded_len (length bs)"
begin

lemma decode_Nil [simp]: "b64_decode B [] cap = Inr []"
proof -
  obtain s where s: "b64_encode B [] 0 = Inr s"
    using encode_total [of "[]" 0] by (auto simp: padded_len_def)
  then have "s = []" using encode_length [OF s] by (simp add: padded_len_def)
  with decode_encode [OF s, of cap] show ?thesis by simp
qed

lemma decode_mod4: "b64_decode B s cap = Inr bs \<Longrightarrow> length s mod 4 = 0"
  by (auto dest!: decode_length simp: padded_len_def)

lemma decode_32_iff_44:
  "b64_decode B s cap = Inr bs \<Longrightarrow> length bs = 32 \<Longrightarrow> length s = 44"
  by (auto dest!: decode_length simp: padded_len_def)

lemma encode_no_newline:
  assumes "b64_encode B bs cap = Inr s"
  shows "10 \<notin> set s"
  using encode_alphabet [OF assms] by (auto simp: b64_alphabet_def subset_eq)

lemma encode_inj:
  assumes "b64_encode B bs cap = Inr s" "b64_encode B bs' cap' = Inr s"
  shows "bs = bs'"
proof -
  let ?n = "max (length bs) (length bs')"
  have "b64_decode B s ?n = Inr bs" "b64_decode B s ?n = Inr bs'"
    using assms by (auto intro: decode_encode)
  then show ?thesis by simp
qed

end

section \<open>The RFC 4648 codec\<close>

definition b64_char :: "nat \<Rightarrow> byte" where
  "b64_char k = (if k < 26 then of_nat (65 + k) else if k < 52 then of_nat (71 + k)
     else if k < 62 then of_nat (k - 4) else if k = 62 then 43 else 47)"

definition b64_val :: "byte \<Rightarrow> nat option" where
  "b64_val c = (let v = unat c in
     if 65 \<le> v \<and> v \<le> 90 then Some (v - 65) else if 97 \<le> v \<and> v \<le> 122 then Some (v - 71)
     else if 48 \<le> v \<and> v \<le> 57 then Some (v + 4) else if v = 43 then Some 62
     else if v = 47 then Some 63 else None)"

fun rfc_encode :: "byte list \<Rightarrow> byte list" where
  "rfc_encode [] = []"
| "rfc_encode [a] = (let n = unat a * 16 in [b64_char (n div 64), b64_char (n mod 64), 61, 61])"
| "rfc_encode [a, b] = (let n = (unat a * 256 + unat b) * 4 in
     [b64_char (n div 4096), b64_char (n div 64 mod 64), b64_char (n mod 64), 61])"
| "rfc_encode (a # b # c # rest) = (let n = (unat a * 256 + unat b) * 256 + unat c in
     b64_char (n div 262144) # b64_char (n div 4096 mod 64) # b64_char (n div 64 mod 64)
       # b64_char (n mod 64) # rfc_encode rest)"

definition rfc_tail1 :: "byte \<Rightarrow> byte \<Rightarrow> byte list option" where
  "rfc_tail1 w x = (case (b64_val w, b64_val x) of
       (Some p, Some q) \<Rightarrow> (let n = p * 64 + q in
          if n mod 16 = 0 then Some [of_nat (n div 16)] else None)
     | _ \<Rightarrow> None)"

definition rfc_tail2 :: "byte \<Rightarrow> byte \<Rightarrow> byte \<Rightarrow> byte list option" where
  "rfc_tail2 w x y = (case (b64_val w, b64_val x, b64_val y) of
       (Some p, Some q, Some r) \<Rightarrow> (let n = (p * 64 + q) * 64 + r in
          if n mod 4 = 0 then Some [of_nat (n div 1024), of_nat (n div 4 mod 256)] else None)
     | _ \<Rightarrow> None)"

definition rfc_quad :: "byte \<Rightarrow> byte \<Rightarrow> byte \<Rightarrow> byte \<Rightarrow> byte list option" where
  "rfc_quad w x y z = (case (b64_val w, b64_val x, b64_val y, b64_val z) of
       (Some p, Some q, Some r, Some t) \<Rightarrow> (let n = ((p * 64 + q) * 64 + r) * 64 + t in
          Some [of_nat (n div 65536), of_nat (n div 256 mod 256), of_nat (n mod 256)])
     | _ \<Rightarrow> None)"

fun rfc_decode :: "byte list \<Rightarrow> byte list option" where
  "rfc_decode [] = Some []"
| "rfc_decode (w # x # y # z # rest) =
     (if z = 61 then (if rest \<noteq> [] then None else if y = 61 then rfc_tail1 w x
                      else rfc_tail2 w x y)
      else (case (rfc_quad w x y z, rfc_decode rest) of
              (Some bs, Some cs) \<Rightarrow> Some (bs @ cs) | _ \<Rightarrow> None))"
| "rfc_decode _ = None"

definition rfc4648 :: base64_ops where
  "rfc4648 = \<lparr>
     b64_encode = (\<lambda>bs cap. if length (rfc_encode bs) \<le> cap then Inr (rfc_encode bs)
                            else Inl InvalidLength),
     b64_decode = (\<lambda>s cap. case rfc_decode s of None \<Rightarrow> Inl InvalidEncoding
        | Some bs \<Rightarrow> if length bs \<le> cap then Inr bs else Inl InvalidLength),
     b64_encoded_len = (\<lambda>bs. padded_len (length bs)) \<rparr>"

lemma unat_b64_char: "unat (b64_char k) = (if k < 26 then 65 + k else if k < 52 then 71 + k
     else if k < 62 then k - 4 else if k = 62 then 43 else 47)"
  by (auto simp: b64_char_def unat_of_nat simp del: of_nat_add of_nat_diff)

lemma b64_val_char [simp]: "k < 64 \<Longrightarrow> b64_val (b64_char k) = Some k"
  by (auto simp: b64_val_def unat_b64_char Let_def)

lemma b64_char_not_pad [simp]: "b64_char k \<noteq> 61"
proof
  assume "b64_char k = 61"
  then have "unat (b64_char k) = unat (61 :: byte)" by simp
  then show False by (auto simp: unat_b64_char split: if_splits)
qed

lemma b64_char_alphabet: "b64_char k \<in> b64_alphabet"
  by (auto simp: b64_alphabet_def word_le_nat_alt unat_b64_char word_unat_eq_iff)

lemma rfc_encode_alphabet: "set (rfc_encode bs) \<subseteq> b64_alphabet"
  by (induction bs rule: rfc_encode.induct)
    (auto simp: Let_def b64_char_alphabet, auto simp: b64_alphabet_def)

lemma padded_len_add_3 [simp]: "padded_len (3 + n) = 4 + padded_len n"
proof -
  have "(3 + n + 2) div 3 = Suc ((n + 2) div 3)"
    using div_add_self1 [of 3 "n + 2"] by (simp add: ac_simps)
  then show ?thesis by (simp add: padded_len_def)
qed

lemma padded_len_simps [simp]:
  "padded_len 0 = 0" "padded_len (Suc 0) = 4" "padded_len 2 = 4"
  "padded_len (Suc (Suc (Suc n))) = 4 + padded_len n"
  using padded_len_add_3 [of n] by (simp_all add: numeral_3_eq_3) (simp_all add: padded_len_def)

lemma length_rfc_encode: "length (rfc_encode bs) = padded_len (length bs)"
  by (induction bs rule: rfc_encode.induct) (auto simp: Let_def numeral_2_eq_2 [symmetric])

lemma byte_pair_bound: "unat (a :: byte) * 256 + unat (b :: byte) < 65536"
proof -
  have "unat a < 256" "unat b < 256" by simp_all
  then show ?thesis by linarith
qed

lemma rfc_tail1_encode:
  assumes "n = unat a * 16"
  shows "rfc_tail1 (b64_char (n div 64)) (b64_char (n mod 64)) = Some [a]"
proof -
  have "n div 64 < 64"
    using byte_less_256 [of a] by (simp add: assms less_mult_imp_div_less)
  moreover have "n div 64 * 64 + n mod 64 = n" by (rule div_mult_mod_eq)
  moreover have "n mod 16 = 0" "n div 16 = unat a" by (simp_all add: assms)
  ultimately show ?thesis by (simp add: rfc_tail1_def Let_def)
qed

lemma split_two: "n div 4096 * 64 + n div 64 mod 64 = n div (64 :: nat)"
  using div_mult_mod_eq [of "n div 64" 64] by (simp add: div_mult2_eq [symmetric])

lemma split_three: "(n div 262144 * 64 + n div 4096 mod 64) = n div (4096 :: nat)"
  using div_mult_mod_eq [of "n div 4096" 64] by (simp add: div_mult2_eq [symmetric])

lemma rfc_tail2_encode:
  assumes "n = (unat a * 256 + unat b) * 4"
  shows "rfc_tail2 (b64_char (n div 4096)) (b64_char (n div 64 mod 64)) (b64_char (n mod 64))
     = Some [a, b]"
proof -
  have n: "n < 262144" using byte_pair_bound [of a b] by (simp add: assms)
  then have "n div 4096 < 64" by (simp add: less_mult_imp_div_less)
  moreover have "(n div 4096 * 64 + n div 64 mod 64) * 64 + n mod 64 = n"
    by (simp only: split_two div_mult_mod_eq)
  moreover have "n mod 4 = 0" "n div 1024 = unat a" "n div 4 mod 256 = unat b"
    using assms byte_less_256 [of a] byte_less_256 [of b] by simp_all
  ultimately show ?thesis by (simp add: rfc_tail2_def Let_def)
qed

lemma rfc_quad_encode:
  assumes "n = (unat a * 256 + unat b) * 256 + unat c"
  shows "rfc_quad (b64_char (n div 262144)) (b64_char (n div 4096 mod 64))
     (b64_char (n div 64 mod 64)) (b64_char (n mod 64)) = Some [a, b, c]"
proof -
  define m where "m = unat a * 256 + unat b"
  have "m < 65536" unfolding m_def by (rule byte_pair_bound)
  moreover have "unat c < 256" by simp
  moreover have n: "n = m * 256 + unat c" unfolding m_def by (rule assms)
  ultimately have "n < 16777216" by linarith
  then have "n div 262144 < 64" by (simp add: less_mult_imp_div_less)
  moreover have "((n div 262144 * 64 + n div 4096 mod 64) * 64 + n div 64 mod 64) * 64 + n mod 64 = n"
  proof -
    have "n div 4096 * 64 + n div 64 mod 64 = n div 64" by (rule split_two)
    then show ?thesis by (simp only: split_three div_mult_mod_eq)
  qed
  moreover have n256: "n div 256 = m" "n mod 256 = unat c" by (simp_all add: n)
  moreover have m256: "m div 256 = unat a" "m mod 256 = unat b" by (simp_all add: m_def)
  moreover have "n div 65536 = unat a"
    using n256 m256 by (simp add: div_mult2_eq [of n 256 256, simplified])
  ultimately show ?thesis by (simp add: rfc_quad_def Let_def)
qed

lemma rfc_decode_encode: "rfc_decode (rfc_encode bs) = Some bs"
  by (induction bs rule: rfc_encode.induct)
    (simp_all only: rfc_encode.simps rfc_decode.simps Let_def b64_char_not_pad if_False if_True
      rfc_tail1_encode [OF refl] rfc_tail2_encode [OF refl] rfc_quad_encode [OF refl]
      option.case prod.case append.simps simp_thms list.distinct)

lemma length_rfc_pieces:
  "rfc_tail1 w x = Some bs \<Longrightarrow> length bs = 1"
  "rfc_tail2 w x y = Some bs \<Longrightarrow> length bs = 2"
  "rfc_quad w x y z = Some bs \<Longrightarrow> length bs = 3"
  by (auto simp: rfc_tail1_def rfc_tail2_def rfc_quad_def Let_def split: option.splits if_splits)

lemma length_rfc_decode: "rfc_decode s = Some bs \<Longrightarrow> length s = padded_len (length bs)"
proof (induction s arbitrary: bs rule: rfc_decode.induct)
  case (2 w x y z rest)
  then show ?case
    by (cases "z = 61"; cases "y = 61")
      (auto split: if_splits option.splits dest!: length_rfc_pieces)
qed auto

interpretation rfc: base64ct rfc4648
  by unfold_locales
    (auto simp: rfc4648_def length_rfc_encode rfc_decode_encode length_rfc_decode
      split: if_splits option.splits dest: rfc_encode_alphabet [THEN subsetD])

end
