(* ===== verification/Util.thy ===== *)
theory Util
  imports Base64ct
begin

text \<open>
  \<open>internal/util.rs\<close> and the key constants of \<open>crypto/basics.rs\<close> it uses: the
  bounded reader \<open>read_to_end_up_to\<close> over an arbitrary \<open>std::io::Read\<close>, the
  key decoders \<open>base64_to_key\<close> and \<open>load_base64_key_file\<close>, and the small
  extension traits. The locale \<open>reader\<close> is the contract of \<open>Read::read\<close>
  that the loop relies on; it is interpreted on the model of an open file.
\<close>

section \<open>Keys\<close>

definition KEY_LENGTH :: nat where
  "KEY_LENGTH = 32"

definition KEY_LENGTH_B64 :: nat where
  "KEY_LENGTH_B64 = KEY_LENGTH * 4 div 3 + 4"

type_synonym key = "byte list"
type_synonym nonce = key
type_synonym hash_value = key
type_synonym uuid_bytes = "byte list"
type_synonym connection_id_bytes = "byte list"

definition is_key :: "key \<Rightarrow> bool" where
  "is_key k \<longleftrightarrow> length k = KEY_LENGTH"

definition key_new_zeroed :: key where
  "key_new_zeroed = replicate KEY_LENGTH 0"

section \<open>Extension traits\<close>

definition run :: "(unit \<Rightarrow> 'r) \<Rightarrow> 'r" where
  "run f = f ()"

text \<open>A future is modelled by its result, so awaiting it is the identity.\<close>

definition run_async :: "(unit \<Rightarrow> 'r) \<Rightarrow> 'r" where
  "run_async f = f ()"

text \<open>\<open>ConstLenExt::LEN\<close> of an array type, read off any array of the type.\<close>

definition const_len :: "'a list \<Rightarrow> nat" where
  "const_len array = length array"

definition ok_ext :: "'a \<Rightarrow> 'a outcome" where
  "ok_ext x = Ok x"

definition some_ext :: "'a \<Rightarrow> 'a option" where
  "some_ext x = Some x"

text \<open>\<open>CascadeExt::cas\<close>: the closure mutates the value, which is then returned.\<close>

definition cas :: "('a \<Rightarrow> 'a) \<Rightarrow> 'a \<Rightarrow> 'a" where
  "cas f x = f x"

definition discard_result :: "'a \<Rightarrow> unit" where
  "discard_result x = ()"

text \<open>
  \<open>io_error_kind\<close>: the kind of the I/O error an \<open>anyhow\<close> error was built
  from; a downcast looks through contexts.
\<close>

fun io_error_kind :: "error \<Rightarrow> io_error_kind option" where
  "io_error_kind (Io k) = some_ext k"
| "io_error_kind (Context c as e) = io_error_kind e"
| "io_error_kind _ = None"

section \<open>The bounded reader\<close>

text \<open>One call of \<open>Read::read\<close>: the bytes it put into the buffer, or an error.\<close>

datatype read_result = ReadOk "byte list" | ReadErr io_error_kind

partial_function (option) read_loop ::
  "('r \<Rightarrow> nat \<Rightarrow> read_result \<times> 'r) \<Rightarrow> 'r \<Rightarrow> byte list \<Rightarrow> nat
     \<Rightarrow> ((byte list \<times> nat) outcome \<times> 'r) option" where
  "read_loop rd r buf red =
     (if length buf < red then Some (Panic ''slice index'', r)
      else if length buf - red = 0 then Some (Ok (buf, red), r)
      else (case rd r (length buf - red) of
          (ReadOk bs, r') \<Rightarrow>
             if length bs = 0 then Some (Ok (buf, red), r')
             else read_loop rd r' (write_at red bs buf) (red + length bs)
        | (ReadErr k, r') \<Rightarrow>
             if k = Interrupted then read_loop rd r' buf red
             else Some (Err (Io k), r')))"

definition read_to_end_up_to ::
  "('r \<Rightarrow> nat \<Rightarrow> read_result \<times> 'r) \<Rightarrow> 'r \<Rightarrow> byte list
     \<Rightarrow> ((byte list \<times> nat) outcome \<times> 'r) option" where
  "read_to_end_up_to rd r buf = read_loop rd r buf 0"

section \<open>Key decoding\<close>

text \<open>
  \<open>base64_to_key\<close> decodes into a zeroed key and drops the returned slice, so
  what the decoder did not fill stays zero.
\<close>

definition base64_to_key :: "base64_ops \<Rightarrow> byte list \<Rightarrow> key outcome" where
  "base64_to_key B encoded_key =
     bind_outcome (of_sum B64 (b64_decode B encoded_key (length key_new_zeroed)))
       (\<lambda>decoded. Ok (write_at 0 decoded key_new_zeroed))"

text \<open>
  The file system as the program sees it: contents by path, and for each path
  what the operating system does to \<open>File::open\<close>, to \<open>File::create\<close>, to the
  writes (a number of bytes after which they fail) and to the reads. What happens to
  the reads is an endless sequence: the event at \<open>i\<close> decides about the read
  number \<open>i\<close>, which is interrupted, gives a part of what was asked for or all
  of it, or fails.
\<close>

datatype os_event = Os_full | Os_interrupt | Os_chunk nat | Os_fail io_error_kind

record filesystem =
  files :: "string \<Rightarrow> byte list option"
  open_error :: "string \<Rightarrow> io_error_kind option"
  read_events :: "string \<Rightarrow> nat \<Rightarrow> os_event"
  create_error :: "string \<Rightarrow> io_error_kind option"
  write_quota :: "string \<Rightarrow> nat option"

record open_file =
  remaining :: "byte list"
  events :: "nat \<Rightarrow> os_event"

definition next_read :: "open_file \<Rightarrow> open_file" where
  "next_read f = f\<lparr>events := \<lambda>i. events f (Suc i)\<rparr>"

definition file_read :: "open_file \<Rightarrow> nat \<Rightarrow> read_result \<times> open_file" where
  "file_read f n = (case events f 0 of
       Os_full \<Rightarrow> (ReadOk (take n (remaining f)), (next_read f)\<lparr>remaining := drop n (remaining f)\<rparr>)
     | Os_interrupt \<Rightarrow> (ReadErr Interrupted, next_read f)
     | Os_chunk k \<Rightarrow> (let m = min n (max 1 k) in
         (ReadOk (take m (remaining f)), (next_read f)\<lparr>remaining := drop m (remaining f)\<rparr>))
     | Os_fail k \<Rightarrow> (ReadErr k, next_read f))"

definition file_open :: "filesystem \<Rightarrow> string \<Rightarrow> open_file outcome" where
  "file_open fs path = (case open_error fs path of Some k \<Rightarrow> Err (Io k)
     | None \<Rightarrow> (case files fs path of None \<Rightarrow> Err (Io NotFound)
       | Some content \<Rightarrow> Ok \<lparr>remaining = content, events = read_events fs path\<rparr>))"

definition trim_newline :: "byte list \<Rightarrow> byte list" where
  "trim_newline bs = (if bs \<noteq> [] \<and> last bs = 10 then take (length bs - 1) bs else bs)"

definition load_base64_key_file ::
  "base64_ops \<Rightarrow> filesystem \<Rightarrow> string \<Rightarrow> key outcome option" where
  "load_base64_key_file B fs file = (case file_open fs file of
       Ok f \<Rightarrow> (case read_to_end_up_to file_read f (replicate KEY_LENGTH_B64 0) of
           None \<Rightarrow> None
         | Some (res, _) \<Rightarrow> Some (bind_outcome res
             (\<lambda>(psk_b64, psk_b64_len). base64_to_key B (trim_newline (take psk_b64_len psk_b64)))))
     | Err e \<Rightarrow> Some (Err e)
     | Panic m \<Rightarrow> Some (Panic m))"

section \<open>The reader contract\<close>

text \<open>
  What \<open>Read::read\<close> promises: at most the requested bytes, the next bytes of the
  content, zero bytes of a non-empty buffer only at the end. A reader is \<open>healthy\<close>
  when no error is in store but interruptions, of which only finitely many come in a
  row (\<open>stalls\<close> counts them).
\<close>

text \<open>Writing what was read so far and then the rest is writing all of it.\<close>

lemma write_next:
  assumes "red \<le> length buf" "length bs \<le> length buf - red" "c = bs @ c'"
  shows "write_at (red + length bs) (take (length buf - (red + length bs)) c') (write_at red bs buf)
      = write_at red (take (length buf - red) c) buf"
    and "red + length bs + min (length buf - (red + length bs)) (length c') = red + min (length buf - red) (length c)"
proof -
  have "write_at (red + length bs) ys (write_at red bs buf) = write_at red (bs @ ys) buf" for ys
    using assms(1) by (simp add: write_at_def min_def ac_simps)
  then show "write_at (red + length bs) (take (length buf - (red + length bs)) c') (write_at red bs buf)
      = write_at red (take (length buf - red) c) buf"
    using assms(2,3) by (simp add: diff_diff_eq)
  show "red + length bs + min (length buf - (red + length bs)) (length c') = red + min (length buf - red) (length c)"
    using assms by auto
qed

locale reader =
  fixes rd :: "'r \<Rightarrow> nat \<Rightarrow> read_result \<times> 'r"
    and content :: "'r \<Rightarrow> byte list"
    and stalls :: "'r \<Rightarrow> nat"
    and healthy :: "'r \<Rightarrow> bool"
  assumes read_ok: "healthy r \<Longrightarrow> 0 < n \<Longrightarrow> rd r n = (ReadOk bs, r') \<Longrightarrow>
        length bs \<le> n \<and> content r = bs @ content r' \<and> (bs = [] \<longrightarrow> content r = [])
        \<and> healthy r'"
    and read_err: "healthy r \<Longrightarrow> 0 < n \<Longrightarrow> rd r n = (ReadErr k, r') \<Longrightarrow>
        k = Interrupted \<and> content r' = content r \<and> stalls r' < stalls r \<and> healthy r'"
begin

lemma read_loop_result:
  assumes "healthy r" "red \<le> length buf"
  shows "\<exists>r'. read_loop rd r buf red =
    Some (Ok (write_at red (take (length buf - red) (content r)) buf,
              red + min (length buf - red) (length (content r))), r')"
  using assms
proof (induction r arbitrary: buf red
    rule: wf_induct_rule [OF wf_measures [of "[\<lambda>r. length (content r), stalls]"]])
  case less: (1 r)
  let ?n = "length buf - red"
  show ?case
  proof (cases "?n = 0")
    case True
    then show ?thesis using less.prems
      by (subst read_loop.simps) (simp add: write_at_def)
  next
    case False
    obtain res r' where rd: "rd r ?n = (res, r')" by fastforce
    show ?thesis
    proof (cases res)
      case (ReadOk bs)
      with rd less.prems False have step: "length bs \<le> ?n" "content r = bs @ content r'"
        "bs = [] \<longrightarrow> content r = []" "healthy r'"
        using read_ok [of r ?n bs r'] by auto
      show ?thesis
      proof (cases "bs = []")
        case True
        then show ?thesis using less.prems False rd ReadOk step
          by (subst read_loop.simps) (simp add: write_at_def)
      next
        case False
        let ?buf = "write_at red bs buf"
        have len: "length ?buf = length buf"
          using less.prems step(1) by (intro length_write_at) linarith
        have "(r', r) \<in> measures [\<lambda>r. length (content r), stalls]"
          using step False by (cases bs) auto
        moreover have "red + length bs \<le> length ?buf"
          using less.prems step(1) len by linarith
        ultimately obtain r'' where IH: "read_loop rd r' ?buf (red + length bs) =
          Some (Ok (write_at (red + length bs) (take (length ?buf - (red + length bs)) (content r')) ?buf,
            red + length bs + min (length ?buf - (red + length bs)) (length (content r'))), r'')"
          using less.IH [OF _ step(4)] by blast
        then show ?thesis
          using less.prems False \<open>?n \<noteq> 0\<close> rd ReadOk write_next [OF less.prems(2) step(1,2)] len
          by (subst read_loop.simps) simp
      qed
    next
      case (ReadErr k)
      with rd less.prems False have "k = Interrupted" "content r' = content r"
        "stalls r' < stalls r" "healthy r'"
        using read_err [of r ?n k r'] by auto
      then show ?thesis using less.IH [of r' red buf] less.prems False rd ReadErr
        by (subst read_loop.simps) simp
    qed
  qed
qed

lemma read_to_end_up_to_result:
  assumes "healthy r"
  obtains r' where "read_to_end_up_to rd r buf =
    Some (Ok (write_at 0 (take (length buf) (content r)) buf,
              min (length buf) (length (content r))), r')"
  using read_loop_result [OF assms, of 0 buf] by (auto simp: read_to_end_up_to_def)

end

text \<open>A read that is interrupted, and reads of which all from some point on are.\<close>

definition interrupts :: "os_event \<Rightarrow> bool" where
  "interrupts e \<longleftrightarrow> e = Os_interrupt \<or> e = Os_fail Interrupted"

definition interrupted_for_ever :: "(nat \<Rightarrow> os_event) \<Rightarrow> bool" where
  "interrupted_for_ever ev \<longleftrightarrow> (\<exists>i. \<forall>j \<ge> i. interrupts (ev j))"

definition file_stalls :: "open_file \<Rightarrow> nat" where
  "file_stalls f = (LEAST i. \<not> interrupts (events f i))"

definition file_healthy :: "open_file \<Rightarrow> bool" where
  "file_healthy f \<longleftrightarrow> (\<forall>i k. events f i \<noteq> Os_fail k) \<and> \<not> interrupted_for_ever (events f)"

lemma interrupted_for_ever_shift:
  "interrupted_for_ever (\<lambda>i. ev (Suc i)) \<longleftrightarrow> interrupted_for_ever ev"
proof
  assume "interrupted_for_ever (\<lambda>i. ev (Suc i))"
  then obtain i where "\<forall>j \<ge> i. interrupts (ev (Suc j))" by (auto simp: interrupted_for_ever_def)
  then have "\<forall>j \<ge> Suc i. interrupts (ev j)" by (metis Suc_le_D Suc_le_mono)
  then show "interrupted_for_ever ev" unfolding interrupted_for_ever_def by blast
next
  assume "interrupted_for_ever ev"
  then show "interrupted_for_ever (\<lambda>i. ev (Suc i))"
    unfolding interrupted_for_ever_def by (meson le_Suc_eq)
qed

lemma next_read_simps [simp]:
  "remaining (next_read f) = remaining f" "events (next_read f) = (\<lambda>i. events f (Suc i))"
  by (simp_all add: next_read_def)

lemma file_stalls_next:
  assumes "interrupts (events f 0)" "\<not> interrupted_for_ever (events f)"
  shows "file_stalls (next_read f) < file_stalls f"
proof -
  obtain i where "\<not> interrupts (events f i)"
    using assms(2) by (auto simp: interrupted_for_ever_def)
  from Least_Suc [of "\<lambda>i. \<not> interrupts (events f i)", OF this] assms(1)
  show ?thesis by (simp add: file_stalls_def)
qed

interpretation osfile: reader file_read remaining file_stalls file_healthy
proof (unfold_locales, goal_cases)
  case (1 r n bs r')
  then show ?case
    by (auto simp: file_read_def file_healthy_def interrupted_for_ever_shift Let_def
        split: os_event.splits)
next
  case (2 r n k r')
  moreover from this have "interrupts (events r 0)" "r' = next_read r"
    by (auto simp: file_read_def file_healthy_def interrupts_def Let_def split: os_event.splits)
  ultimately show ?case using file_stalls_next [of r]
    by (auto simp: file_read_def file_healthy_def interrupted_for_ever_shift Let_def
        split: os_event.splits)
qed

text \<open>On files the loop returns unless the reads are interrupted for ever.\<close>

lemma read_loop_file_returns:
  assumes "\<not> interrupted_for_ever (events f)"
  shows "\<exists>res. read_loop file_read f buf red = Some res"
  using assms
proof (induction f arbitrary: buf red
    rule: wf_induct_rule [OF wf_measures [of "[\<lambda>f. length (remaining f), file_stalls]"]])
  case (1 f)
  obtain res f' where rd: "file_read f (length buf - red) = (res, f')" by fastforce
  have ev: "\<not> interrupted_for_ever (events f')"
    using 1(2) rd by (auto simp: file_read_def Let_def interrupted_for_ever_shift split: os_event.splits)
  have "(f', f) \<in> measures [\<lambda>f. length (remaining f), file_stalls]"
    if "red < length buf" "(\<exists>bs. res = ReadOk bs \<and> bs \<noteq> []) \<or> res = ReadErr Interrupted"
  proof (cases "interrupts (events f 0)")
    case True
    then show ?thesis using rd file_stalls_next [OF True 1(2)]
      by (auto simp: file_read_def interrupts_def)
  next
    case False
    then show ?thesis using rd that by (cases "remaining f")
      (auto simp: file_read_def interrupts_def Let_def split: os_event.splits)
  qed
  then show ?case using 1(1) [OF _ ev] rd
    by (subst read_loop.simps) (auto split: read_result.splits io_error_kind.splits)
qed

text \<open>Reads that are all interrupted keep the loop running for ever.\<close>

lemma read_loop_interrupted:
  assumes "\<forall>i. interrupts (events f i)" "red < length buf"
  shows "read_loop file_read f buf red = None"
proof -
  have False if "read_loop rd r buf red = Some res"
    and "rd = file_read" "\<forall>i. interrupts (events r i)" "red < length buf" for rd r buf red res
    using that
  proof (induction rule: read_loop.raw_induct [rotated, consumes 1])
    case (1 loop rd r buf red res)
    then have "events r 0 = Os_interrupt \<or> events r 0 = Os_fail Interrupted"
      by (auto simp: interrupts_def)
    then have "file_read r (length buf - red) = (ReadErr Interrupted, next_read r)"
      by (auto simp: file_read_def)
    with 1(2-5) have "loop file_read (next_read r) buf red = Some res" by simp
    with 1(1) [of rd "next_read r"] 1(3-5) show ?case by simp
  qed
  with assms show ?thesis by (cases "read_loop file_read f buf red") blast+
qed

lemma load_base64_key_file_returns:
  assumes "\<not> interrupted_for_ever (read_events fs path)"
  shows "\<exists>res. load_base64_key_file B fs path = Some res"
proof (cases "file_open fs path")
  case (Ok f)
  then have "events f = read_events fs path" by (auto simp: file_open_def split: option.splits)
  then obtain res where "read_to_end_up_to file_read f (replicate KEY_LENGTH_B64 0) = Some res"
    unfolding read_to_end_up_to_def using read_loop_file_returns [of f "replicate KEY_LENGTH_B64 0" 0] assms by auto
  then show ?thesis using Ok by (cases res) (simp add: load_base64_key_file_def)
qed (simp_all add: load_base64_key_file_def)

lemma load_base64_key_file_interrupted:
  assumes "open_error fs path = None" "files fs path \<noteq> None"
    and "\<forall>i. interrupts (read_events fs path i)"
  shows "load_base64_key_file B fs path = None"
proof -
  obtain f where "file_open fs path = Ok f" "events f = read_events fs path"
    using assms(1,2) by (auto simp: file_open_def)
  then show ?thesis
    using read_loop_interrupted [of f 0 "replicate KEY_LENGTH_B64 0"] assms(3)
    by (simp add: load_base64_key_file_def read_to_end_up_to_def KEY_LENGTH_B64_def KEY_LENGTH_def)
qed

section \<open>Lemmas on the key decoders\<close>

lemma length_key_new_zeroed [simp]: "length key_new_zeroed = KEY_LENGTH"
  by (simp add: key_new_zeroed_def)

lemma const_len_key [simp]: "const_len key_new_zeroed = KEY_LENGTH"
  by (simp add: const_len_def)

lemma is_key_new_zeroed [simp]: "is_key key_new_zeroed"
  by (simp add: is_key_def)

lemma KEY_LENGTH_B64_eq: "KEY_LENGTH_B64 = 46"
  by (simp add: KEY_LENGTH_B64_def KEY_LENGTH_def)

lemma write_at_full: "length xs = length buf \<Longrightarrow> write_at 0 xs buf = xs"
  by (simp add: write_at_def)

lemma base64_to_key_not_Panic [simp]: "base64_to_key B s \<noteq> Panic m"
  by (cases "b64_decode B s (length key_new_zeroed)") (simp_all add: base64_to_key_def)

lemma trim_newline_id: "10 \<notin> set s \<Longrightarrow> trim_newline s = s"
  by (cases s rule: rev_cases) (auto simp: trim_newline_def)

lemma trim_newline_snoc [simp]: "trim_newline (s @ [10]) = s"
  by (simp add: trim_newline_def)

lemma length_trim_newline:
  "length (trim_newline s) = length s \<or> length (trim_newline s) = length s - 1"
  by (simp add: trim_newline_def)

text \<open>
  The file can be opened, no error other than an interruption is in store for its
  reads, and they are not interrupted for ever.
\<close>

definition reads_healthy :: "filesystem \<Rightarrow> string \<Rightarrow> bool" where
  "reads_healthy fs path \<longleftrightarrow> open_error fs path = None
     \<and> (\<forall>i k. read_events fs path i \<noteq> Os_fail k) \<and> \<not> interrupted_for_ever (read_events fs path)"

lemma reads_healthy_file:
  "reads_healthy fs path \<Longrightarrow> file_healthy \<lparr>remaining = c, events = read_events fs path\<rparr>"
  by (simp add: reads_healthy_def file_healthy_def)

lemma load_base64_key_file_content:
  assumes "reads_healthy fs path" "files fs path = Some c"
  shows "load_base64_key_file B fs path =
    Some (base64_to_key B (trim_newline (take KEY_LENGTH_B64 c)))"
proof -
  let ?f = "\<lparr>remaining = c, events = read_events fs path\<rparr>"
  let ?buf = "replicate KEY_LENGTH_B64 (0 :: byte)"
  obtain r' where "read_to_end_up_to file_read ?f ?buf =
      Some (Ok (write_at 0 (take (length ?buf) (remaining ?f)) ?buf,
                min (length ?buf) (length (remaining ?f))), r')"
    by (rule osfile.read_to_end_up_to_result [OF reads_healthy_file [OF assms(1), of c]])
  moreover have "take (min n (length c)) (write_at 0 (take n c) buf) = take n c"
    for n and buf :: "byte list" by (simp add: write_at_def min_def)
  ultimately show ?thesis
    using assms by (simp add: load_base64_key_file_def file_open_def reads_healthy_def)
qed

context base64ct
begin

lemma base64_to_key_is_key:
  assumes "base64_to_key B s = Ok k"
  shows "is_key k"
proof -
  obtain bs where "b64_decode B s KEY_LENGTH = Inr bs" "k = write_at 0 bs key_new_zeroed"
    using assms by (auto simp: base64_to_key_def)
  with decode_fits [of s KEY_LENGTH bs] show ?thesis
    by (simp add: is_key_def length_write_at)
qed

lemma base64_to_key_encode:
  assumes "is_key k" "b64_encode B k cap = Inr s"
  shows "base64_to_key B s = Ok k"
  using assms decode_encode [OF assms(2), of KEY_LENGTH]
  by (simp add: base64_to_key_def is_key_def write_at_full)

lemma base64_to_key_mod4: "base64_to_key B s = Ok k \<Longrightarrow> length s mod 4 = 0"
  by (auto simp: base64_to_key_def dest: decode_mod4)

lemma load_encoded_key:
  assumes "reads_healthy fs path" "is_key k" "b64_encode B k cap = Inr s"
    and "files fs path = Some s \<or> files fs path = Some (s @ [10])"
  shows "load_base64_key_file B fs path = Some (Ok k)"
proof -
  have len: "length s = 44"
    using encode_length [OF assms(3)] assms(2)
    by (simp add: is_key_def KEY_LENGTH_def padded_len_def)
  have "trim_newline s = s" by (rule trim_newline_id) (rule encode_no_newline [OF assms(3)])
  with assms len show ?thesis
    by (auto simp: load_base64_key_file_content KEY_LENGTH_B64_eq base64_to_key_encode)
qed

end

section \<open>Properties\<close>

text \<open>
  C18: a key file that holds the base64 text of a key, with or without a trailing
  newline, is loaded as that key, whatever interruptions and short reads the
  operating system inserts, as long as it does not interrupt the reads for ever;
  the read loop returns.
\<close>

theorem load_key_file_roundtrip:
  assumes "base64ct B" and "reads_healthy fs path" and "is_key k"
    and "b64_encode B k cap = Inr s"
    and "files fs path = Some s \<or> files fs path = Some (s @ [10])"
  shows "load_base64_key_file B fs path = Some (Ok k)"
  by (rule base64ct.load_encoded_key [OF assms])

text \<open>A file system with one file; the listed events come first, then full reads.\<close>

definition example_fs :: "byte list \<Rightarrow> os_event list \<Rightarrow> filesystem" where
  "example_fs c es = \<lparr>files = (\<lambda>p. if p = ''psk.key'' then Some c else None),
     open_error = (\<lambda>p. None), read_events = (\<lambda>p i. if i < length es then es ! i else Os_full),
     create_error = (\<lambda>p. None), write_quota = (\<lambda>p. None)\<rparr>"

lemma example_fs_fields [simp]:
  "files (example_fs c es) = (\<lambda>p. if p = ''psk.key'' then Some c else None)"
  "create_error (example_fs c es) p = None" "write_quota (example_fs c es) p = None"
  by (simp_all add: example_fs_def)

lemma example_reads_healthy [simp]:
  assumes "list_all (\<lambda>e. case e of Os_fail k \<Rightarrow> False | _ \<Rightarrow> True) es"
  shows "reads_healthy ((example_fs c es)\<lparr>files := m\<rparr>) p" and "reads_healthy (example_fs c es) p"
proof -
  have "\<exists>j \<ge> i. \<not> interrupts (if j < length es then es ! j else Os_full)" for i
    by (rule exI [of _ "max i (length es)"]) (simp add: interrupts_def)
  then have "\<not> interrupted_for_ever (\<lambda>i. if i < length es then es ! i else Os_full)"
    by (simp add: interrupted_for_ever_def)
  moreover have "es ! i \<noteq> Os_fail k" if "i < length es" for i k
    using assms that by (auto simp: list_all_length split: os_event.splits)
  ultimately show "reads_healthy ((example_fs c es)\<lparr>files := m\<rparr>) p" "reads_healthy (example_fs c es) p"
    by (simp_all add: reads_healthy_def example_fs_def)
qed

theorem load_key_file_roundtrip_witness:
  "load_base64_key_file rfc4648
     (example_fs (rfc_encode (replicate 32 7) @ [10]) [Os_interrupt, Os_chunk 5, Os_chunk 1])
     ''psk.key'' = Some (Ok (replicate 32 7))"
  by (rule load_key_file_roundtrip [OF rfc.base64ct_axioms, where s = "rfc_encode (replicate 32 7)"
        and cap = 44])
    (simp_all add: is_key_def KEY_LENGTH_def rfc4648_def length_rfc_encode padded_len_def)

text \<open>
  C38: a file longer than the 46 bytes the loader reads is never accepted as a
  key: what is left after the cut and the trimming is not a whole number of
  base64 groups, so loading it ends with an error.
\<close>

theorem load_long_file_rejected:
  assumes "base64ct B" and "reads_healthy fs path"
    and "files fs path = Some c" and "KEY_LENGTH_B64 < length c"
  shows "\<exists>e. load_base64_key_file B fs path = Some (Err e)"
proof -
  let ?s = "trim_newline (take KEY_LENGTH_B64 c)"
  have "length ?s = 46 \<or> length ?s = 45"
    using length_trim_newline [of "take KEY_LENGTH_B64 c"] assms(4) by (auto simp: KEY_LENGTH_B64_eq)
  then have "length ?s mod 4 \<noteq> 0" by auto
  then have "\<nexists>k. base64_to_key B ?s = Ok k"
    by (auto dest: base64ct.base64_to_key_mod4 [OF assms(1)])
  then have "\<exists>e. base64_to_key B ?s = Err e"
    by (cases "base64_to_key B ?s") auto
  then show ?thesis by (simp add: load_base64_key_file_content [OF assms(2,3)])
qed

theorem load_long_file_rejected_witness:
  "\<exists>e. load_base64_key_file rfc4648
     (example_fs (rfc_encode (replicate 32 7) @ [10, 10, 10]) [Os_chunk 40]) ''psk.key'' = Some (Err e)"
proof (rule load_long_file_rejected [OF rfc.base64ct_axioms])
  show "KEY_LENGTH_B64 < length (rfc_encode (replicate 32 7) @ [10, 10, 10])"
    by (simp add: KEY_LENGTH_B64_eq length_rfc_encode padded_len_def)
qed simp_all

text \<open>
  C40: decoding does not require 32 bytes: whatever shorter byte string the
  decoder accepts is used as a key, filled up with zero bytes. In particular an
  empty key file is the zero key, the same as having no key file.
\<close>

theorem short_key_zero_padded:
  assumes "base64ct B" and "b64_encode B bs cap = Inr s" and "length bs \<le> KEY_LENGTH"
    and "reads_healthy fs path" and "files fs path = Some s"
  shows "load_base64_key_file B fs path = Some (Ok (bs @ replicate (KEY_LENGTH - length bs) 0))"
proof -
  have "length s \<le> KEY_LENGTH_B64"
    using base64ct.encode_length [OF assms(1,2)] assms(3)
    by (simp add: padded_len_def KEY_LENGTH_B64_eq KEY_LENGTH_def)
  moreover have "trim_newline s = s"
    by (rule trim_newline_id) (rule base64ct.encode_no_newline [OF assms(1,2)])
  ultimately show ?thesis
    using base64ct.decode_encode [OF assms(1-3)] load_base64_key_file_content [OF assms(4,5), of B]
    by (simp add: base64_to_key_def write_at_def key_new_zeroed_def)
qed

theorem short_key_zero_padded_witness:
  "load_base64_key_file rfc4648 (example_fs (rfc_encode [1, 2]) []) ''psk.key''
     = Some (Ok ([1, 2] @ replicate 30 0))
   \<and> load_base64_key_file rfc4648 (example_fs [] []) ''psk.key'' = Some (Ok key_new_zeroed)"
proof
  show "load_base64_key_file rfc4648 (example_fs (rfc_encode [1, 2]) []) ''psk.key''
     = Some (Ok ([1, 2] @ replicate 30 0))"
    using short_key_zero_padded [OF rfc.base64ct_axioms, of "[1, 2]" 4 "rfc_encode [1, 2]"
        "example_fs (rfc_encode [1, 2]) []" "''psk.key''"]
    by (simp add: KEY_LENGTH_def rfc4648_def length_rfc_encode padded_len_def)
  show "load_base64_key_file rfc4648 (example_fs [] []) ''psk.key'' = Some (Ok key_new_zeroed)"
    using short_key_zero_padded [OF rfc.base64ct_axioms, of "[]" 0 "[]" "example_fs [] []" "''psk.key''"]
    by (simp add: key_new_zeroed_def rfc4648_def)
qed

end
