(* ===== verification/Shake256.thy ===== *)
theory Shake256
  imports Prelude
begin

unbundle bit_operations_syntax

text \<open>
  The interface of the SHAKE256 extendable output function (crates \<open>shake\<close> and
  \<open>sha3\<close>): a function from a message and a number of bytes to that many output
  bytes, of which a shorter output is a prefix. The Keccak sponge of FIPS 202
  satisfies the two laws.
\<close>

section \<open>The interface\<close>

type_synonym xof = "byte list \<Rightarrow> nat \<Rightarrow> byte list"

locale shake256 =
  fixes X :: xof
  assumes xof_length: "length (X m n) = n"
    and xof_prefix: "take n (X m (n + k)) = X m n"
begin

lemma xof_take: "n \<le> k \<Longrightarrow> take n (X m k) = X m n"
  using xof_prefix [of n m "k - n"] by simp

end

section \<open>The Keccak sponge\<close>

type_synonym keccak_state = "u64 list"

definition lane_at :: "keccak_state \<Rightarrow> nat \<Rightarrow> nat \<Rightarrow> u64" where
  "lane_at A x y = A ! (x mod 5 + 5 * (y mod 5))"

definition keccak_theta :: "keccak_state \<Rightarrow> keccak_state" where
  "keccak_theta A =
     (let C = map (\<lambda>x. lane_at A x 0 XOR lane_at A x 1 XOR lane_at A x 2 XOR lane_at A x 3
                       XOR lane_at A x 4) [0..<5];
          D = map (\<lambda>x. C ! ((x + 4) mod 5) XOR word_rotl 1 (C ! ((x + 1) mod 5))) [0..<5]
      in map (\<lambda>i. A ! i XOR D ! (i mod 5)) [0..<25])"

definition rho_offsets :: "nat list" where
  "rho_offsets = [0, 1, 62, 28, 27, 36, 44, 6, 55, 20, 3, 10, 43, 25, 39,
                  41, 45, 15, 21, 8, 18, 2, 61, 56, 14]"

text \<open>Lane \<open>(x, y)\<close> of the result is lane \<open>(x + 3y, x)\<close> of the input, rotated.\<close>

definition keccak_rho_pi :: "keccak_state \<Rightarrow> keccak_state" where
  "keccak_rho_pi A = map (\<lambda>i. let x = i mod 5; y = i div 5; j = (x + 3 * y) mod 5 + 5 * x
     in word_rotl (rho_offsets ! j) (A ! j)) [0..<25]"

definition keccak_chi :: "keccak_state \<Rightarrow> keccak_state" where
  "keccak_chi A = map (\<lambda>i. let x = i mod 5; y = i div 5
     in lane_at A x y XOR (NOT (lane_at A (x + 1) y) AND lane_at A (x + 2) y)) [0..<25]"

definition round_constants :: "u64 list" where
  "round_constants = [0x0000000000000001, 0x0000000000008082, 0x800000000000808A,
     0x8000000080008000, 0x000000000000808B, 0x0000000080000001, 0x8000000080008081,
     0x8000000000008009, 0x000000000000008A, 0x0000000000000088, 0x0000000080008009,
     0x000000008000000A, 0x000000008000808B, 0x800000000000008B, 0x8000000000008089,
     0x8000000000008003, 0x8000000000008002, 0x8000000000000080, 0x000000000000800A,
     0x800000008000000A, 0x8000000080008081, 0x8000000000008080, 0x0000000080000001,
     0x8000000080008008]"

definition keccak_round :: "u64 \<Rightarrow> keccak_state \<Rightarrow> keccak_state" where
  "keccak_round rc A = (let B = keccak_chi (keccak_rho_pi (keccak_theta A))
     in B[0 := B ! 0 XOR rc])"

definition keccak_f :: "keccak_state \<Rightarrow> keccak_state" where
  "keccak_f A = fold keccak_round round_constants A"

definition lane_of_bytes :: "byte list \<Rightarrow> u64" where
  "lane_of_bytes bs = foldr (\<lambda>b acc. push_bit 8 acc OR ucast b) bs 0"

text \<open>The rate of SHAKE256 is 136 bytes, 17 lanes.\<close>

definition keccak_absorb_block :: "byte list \<Rightarrow> keccak_state \<Rightarrow> keccak_state" where
  "keccak_absorb_block blk A = keccak_f (map (\<lambda>i. if i < 17
     then A ! i XOR lane_of_bytes (take 8 (drop (8 * i) blk)) else A ! i) [0..<25])"

definition shake_pad :: "byte list \<Rightarrow> byte list" where
  "shake_pad m = (let q = 136 - length m mod 136 in
     if q = 1 then m @ [0x9F] else m @ [0x1F] @ replicate (q - 2) 0 @ [0x80])"

definition keccak_absorb :: "byte list \<Rightarrow> keccak_state" where
  "keccak_absorb m = (let p = shake_pad m in
     fold (\<lambda>k. keccak_absorb_block (take 136 (drop (136 * k) p))) [0..<length p div 136]
       (replicate 25 0))"

definition squeeze_byte :: "keccak_state \<Rightarrow> nat \<Rightarrow> byte" where
  "squeeze_byte A i = ucast (drop_bit (8 * (i mod 8)) (A ! (i div 8)))"

definition fips202_shake256 :: xof where
  "fips202_shake256 m n = (let A = keccak_absorb m in
     map (\<lambda>i. squeeze_byte ((keccak_f ^^ (i div 136)) A) (i mod 136)) [0..<n])"

interpretation fips202: shake256 fips202_shake256
  by unfold_locales (simp_all add: fips202_shake256_def Let_def take_map take_upt)

end
