(* ===== verification/Hash_Domain.thy ===== *)
theory Hash_Domain
  imports Util Shake256
begin

text \<open>
  \<open>crypto/hash_domain.rs\<close>: chained keyed hashing. A domain is a 32-byte key;
  mixing data into it reads output of SHAKE256 over the key followed by the data.
  The hash is the parameter \<open>X\<close>.
\<close>

section \<open>Definitions\<close>

record hash_domain =
  domain_key :: key

text \<open>The output reader of the hash: the absorbed message and the bytes already read.\<close>

record mix_reader =
  absorbed :: "byte list"
  position :: nat

definition xof_read :: "xof \<Rightarrow> mix_reader \<Rightarrow> nat \<Rightarrow> byte list \<times> mix_reader" where
  "xof_read X r n = (drop (position r) (X (absorbed r) (position r + n)),
     r\<lparr>position := position r + n\<rparr>)"

definition hash_domain_new :: "key \<Rightarrow> hash_domain" where
  "hash_domain_new k = \<lparr>domain_key = k\<rparr>"

definition hash_domain_zero :: hash_domain where
  "hash_domain_zero = hash_domain_new key_new_zeroed"

definition mix_begin_reader :: "hash_domain \<Rightarrow> byte list \<Rightarrow> mix_reader" where
  "mix_begin_reader d data = \<lparr>absorbed = domain_key d @ data, position = 0\<rparr>"

text \<open>The output value is overwritten as a whole, so only its size matters.\<close>

definition mix_read_into :: "xof \<Rightarrow> hash_domain \<Rightarrow> byte list \<Rightarrow> byte list \<Rightarrow> byte list" where
  "mix_read_into X d data out =
     (let (bs, _) = xof_read X (mix_begin_reader d data) (length out) in write_at 0 bs out)"

definition mix_read :: "xof \<Rightarrow> nat \<Rightarrow> hash_domain \<Rightarrow> byte list \<Rightarrow> byte list" where
  "mix_read X size_of_out d data = mix_read_into X d data (replicate size_of_out 0)"

definition mix :: "xof \<Rightarrow> hash_domain \<Rightarrow> byte list \<Rightarrow> hash_domain" where
  "mix X d data = \<lparr>domain_key = mix_read X KEY_LENGTH d data\<rparr>"

definition mix_fork :: "xof \<Rightarrow> hash_domain \<Rightarrow> byte list \<Rightarrow> hash_domain \<times> hash_domain" where
  "mix_fork X d data = (let out = mix_read X (2 * KEY_LENGTH) d data in
     (hash_domain_new (take KEY_LENGTH out), hash_domain_new (drop KEY_LENGTH out)))"

definition mix_trifork ::
  "xof \<Rightarrow> hash_domain \<Rightarrow> byte list \<Rightarrow> hash_domain \<times> hash_domain \<times> hash_domain" where
  "mix_trifork X d data = (let out = mix_read X (3 * KEY_LENGTH) d data in
     (hash_domain_new (take KEY_LENGTH out),
      hash_domain_new (take KEY_LENGTH (drop KEY_LENGTH out)),
      hash_domain_new (drop (2 * KEY_LENGTH) out)))"

definition into_key :: "hash_domain \<Rightarrow> key" where
  "into_key d = domain_key d"

definition wf_domain :: "hash_domain \<Rightarrow> bool" where
  "wf_domain d \<longleftrightarrow> is_key (domain_key d)"

section \<open>Lemmas\<close>

lemma wf_domain_zero [simp]: "wf_domain hash_domain_zero"
  by (simp add: wf_domain_def hash_domain_zero_def hash_domain_new_def)

context shake256
begin

lemma mix_read_eq: "mix_read X n d data = X (domain_key d @ data) n"
  by (simp add: mix_read_def mix_read_into_def xof_read_def mix_begin_reader_def
      write_at_full xof_length)

lemma mix_key: "domain_key (mix X d data) = X (domain_key d @ data) KEY_LENGTH"
  by (simp add: mix_def mix_read_eq)

lemma mix_wf [simp]: "wf_domain (mix X d data)"
  by (simp add: wf_domain_def is_key_def mix_key xof_length)

lemma mix_fork_keys:
  assumes "mix_fork X d data = (a, b)"
  shows "a = mix X d data" and "wf_domain b"
  using assms by (auto simp: mix_fork_def mix_read_eq Let_def hash_domain_new_def mix_def
      xof_take wf_domain_def is_key_def xof_length)

lemma mix_trifork_keys:
  assumes "mix_trifork X d data = (a, b, c)"
  shows "mix_fork X d data = (a, b)" and "wf_domain c"
    and "domain_key a @ domain_key b @ domain_key c = X (domain_key d @ data) (3 * KEY_LENGTH)"
proof -
  let ?out = "X (domain_key d @ data) (3 * KEY_LENGTH)"
  have abc: "a = hash_domain_new (take KEY_LENGTH ?out)"
    "b = hash_domain_new (take KEY_LENGTH (drop KEY_LENGTH ?out))"
    "c = hash_domain_new (drop (2 * KEY_LENGTH) ?out)"
    using assms by (auto simp: mix_trifork_def mix_read_eq Let_def)
  have two: "X (domain_key d @ data) (2 * KEY_LENGTH) = take (2 * KEY_LENGTH) ?out"
    by (rule xof_take [symmetric]) simp
  show "mix_fork X d data = (a, b)"
    by (simp add: mix_fork_def mix_read_eq Let_def abc two drop_take)
  show "wf_domain c"
    by (simp add: abc hash_domain_new_def wf_domain_def is_key_def xof_length)
  have "drop KEY_LENGTH ?out = take KEY_LENGTH (drop KEY_LENGTH ?out) @ drop (2 * KEY_LENGTH) ?out"
    using append_take_drop_id [of KEY_LENGTH "drop KEY_LENGTH ?out"] by (simp add: mult_2)
  then show "domain_key a @ domain_key b @ domain_key c = ?out"
    by (simp add: abc hash_domain_new_def)
qed

end

section \<open>One output stream\<close>

text \<open>
  The keys of \<open>mix\<close>, \<open>mix_fork\<close> and \<open>mix_trifork\<close> are consecutive
  32-byte pieces of one output stream: the fork's first domain is the domain
  \<open>mix\<close> gives, the threefold fork begins with the twofold one, and every
  domain produced has a key of the right size.
\<close>

lemma forks_share_stream:
  assumes "shake256 X"
    and "mix_fork X d data = (a, b)" and "mix_trifork X d data = (a', b', c')"
  shows "a = mix X d data \<and> a' = a \<and> b' = b \<and> wf_domain a \<and> wf_domain b \<and> wf_domain c'
     \<and> domain_key a @ domain_key b @ domain_key c' = X (domain_key d @ data) (3 * KEY_LENGTH)"
proof -
  note fork = shake256.mix_fork_keys [OF assms(1,2)]
  note tri = shake256.mix_trifork_keys [OF assms(1,3)]
  have eq: "a' = a" "b' = b" using tri(1) assms(2) by simp_all
  then show ?thesis using fork tri shake256.mix_wf [OF assms(1)] by simp
qed

end
