(* ===== verification/Uuid.thy ===== *)
theory Uuid
  imports Prelude
begin

text \<open>
  The interface of the \<open>uuid\<close> crate. A UUID is its 16 octets in network order,
  which \<open>Uuid::from_bytes\<close> and \<open>Uuid::as_bytes\<close> convert without change;
  the little-endian layout, the textual form, its parser and the conversion from
  an integer are parameters with the laws of the locale \<open>uuid_crate\<close>. The
  standard layout and the hyphenated hexadecimal text satisfy them.
\<close>

section \<open>The interface\<close>

type_synonym uuid = "byte list"

record uuid_ops =
  to_bytes_le :: "uuid \<Rightarrow> byte list"
  uuid_to_string :: "uuid \<Rightarrow> string"
  uuid_parse_str :: "string \<Rightarrow> uuid option"
  from_u128 :: "128 word \<Rightarrow> uuid"

definition is_uuid :: "uuid \<Rightarrow> bool" where
  "is_uuid u \<longleftrightarrow> length u = 16"

definition uuid_nil :: uuid where
  "uuid_nil = replicate 16 0"

locale uuid_crate =
  fixes U :: uuid_ops
  assumes le_length: "is_uuid u \<Longrightarrow> length (to_bytes_le U u) = 16"
    and le_inj: "is_uuid u \<Longrightarrow> is_uuid v \<Longrightarrow> to_bytes_le U u = to_bytes_le U v \<Longrightarrow> u = v"
    and parse_to_string: "is_uuid u \<Longrightarrow> uuid_parse_str U (uuid_to_string U u) = Some u"
    and parse_is_uuid: "uuid_parse_str U s = Some u \<Longrightarrow> is_uuid u"
    and from_u128_is_uuid: "is_uuid (from_u128 U w)"
    and from_u128_inj: "from_u128 U w = from_u128 U w' \<Longrightarrow> w = w'"
begin

lemma to_string_inj:
  "is_uuid u \<Longrightarrow> is_uuid v \<Longrightarrow> uuid_to_string U u = uuid_to_string U v \<Longrightarrow> u = v"
  by (metis parse_to_string option.inject)

end

lemma is_uuid_nil [simp]: "is_uuid uuid_nil"
  by (simp add: is_uuid_def uuid_nil_def)

section \<open>The standard layouts\<close>

definition le_order :: "nat list" where
  "le_order = [3, 2, 1, 0, 5, 4, 7, 6, 8, 9, 10, 11, 12, 13, 14, 15]"

definition hex_digit :: "nat \<Rightarrow> char" where
  "hex_digit n = (if n < 10 then char_of (48 + n) else char_of (87 + n))"

definition hex_val :: "char \<Rightarrow> nat option" where
  "hex_val c = (let v = (of_char c :: nat) in
     if 48 \<le> v \<and> v \<le> 57 then Some (v - 48)
     else if 97 \<le> v \<and> v \<le> 102 then Some (v - 87) else None)"

definition hex_byte :: "byte \<Rightarrow> string" where
  "hex_byte b = [hex_digit (unat b div 16), hex_digit (unat b mod 16)]"

definition hex_string :: "byte list \<Rightarrow> string" where
  "hex_string bs = concat (map hex_byte bs)"

fun hex_parse :: "string \<Rightarrow> byte list option" where
  "hex_parse [] = Some []"
| "hex_parse (c # d # cs) = (case (hex_val c, hex_val d, hex_parse cs) of
     (Some p, Some q, Some bs) \<Rightarrow> Some (of_nat (16 * p + q) # bs) | _ \<Rightarrow> None)"
| "hex_parse [c] = None"

definition hyphenated :: "uuid \<Rightarrow> string" where
  "hyphenated u = hex_string (take 4 u) @ ''-'' @ hex_string (take 2 (drop 4 u)) @ ''-''
     @ hex_string (take 2 (drop 6 u)) @ ''-'' @ hex_string (take 2 (drop 8 u)) @ ''-''
     @ hex_string (drop 10 u)"

definition parse_hyphenated :: "string \<Rightarrow> uuid option" where
  "parse_hyphenated s = (case hex_parse (filter (\<lambda>c. c \<noteq> CHR ''-'') s) of
     None \<Rightarrow> None | Some bs \<Rightarrow> if length bs = 16 then Some bs else None)"

definition be_bytes :: "128 word \<Rightarrow> byte list" where
  "be_bytes w = map (\<lambda>i. ucast (drop_bit (8 * (15 - i)) w)) [0..<16]"

definition std_uuid :: uuid_ops where
  "std_uuid = \<lparr> to_bytes_le = (\<lambda>u. map (\<lambda>i. u ! i) le_order), uuid_to_string = hyphenated,
     uuid_parse_str = parse_hyphenated, from_u128 = be_bytes \<rparr>"

lemma of_char_hex_digit:
  "n < 16 \<Longrightarrow> (of_char (hex_digit n) :: nat) = (if n < 10 then 48 + n else 87 + n)"
  by (simp add: hex_digit_def)

lemma hex_val_digit [simp]: "n < 16 \<Longrightarrow> hex_val (hex_digit n) = Some n"
  by (auto simp: hex_val_def of_char_hex_digit Let_def)

lemma hex_digit_not_hyphen [simp]: "n < 16 \<Longrightarrow> hex_digit n \<noteq> CHR ''-''"
proof
  assume "n < 16" "hex_digit n = CHR ''-''"
  then have "(if n < 10 then 48 + n else 87 + n) = of_char CHR ''-''"
    using of_char_hex_digit [of n] by simp
  then show False by (simp split: if_splits)
qed

lemma byte_div_16 [simp]: "unat (b :: byte) div 16 < 16"
  using byte_less_256 [of b] by (simp add: less_mult_imp_div_less)

lemma hex_parse_string_append:
  "hex_parse (hex_string bs @ cs) = map_option (\<lambda>rest. bs @ rest) (hex_parse cs)"
  by (induction bs) (auto simp: hex_string_def hex_byte_def option.map_comp comp_def
      option.map_ident split: option.splits)

lemma filter_hex_string: "filter (\<lambda>c. c \<noteq> CHR ''-'') (hex_string bs) = hex_string bs"
  by (induction bs) (simp_all add: hex_string_def hex_byte_def)

lemma hex_string_append: "hex_string (xs @ ys) = hex_string xs @ hex_string ys"
  by (simp add: hex_string_def)

lemma uuid_pieces:
  "take 4 u @ take 2 (drop 4 u) @ take 2 (drop 6 u) @ take 2 (drop 8 u) @ drop 10 u = u"
  using append_take_drop_id [of 2 "drop 8 u"] append_take_drop_id [of 2 "drop 6 u"]
    append_take_drop_id [of 2 "drop 4 u"] append_take_drop_id [of 4 u] by simp

lemma parse_hyphenated_inverse: "is_uuid u \<Longrightarrow> parse_hyphenated (hyphenated u) = Some u"
proof -
  assume u: "is_uuid u"
  have "filter (\<lambda>c. c \<noteq> CHR ''-'') (hyphenated u) = hex_string (take 4 u
      @ take 2 (drop 4 u) @ take 2 (drop 6 u) @ take 2 (drop 8 u) @ drop 10 u)"
    by (simp add: hyphenated_def filter_hex_string hex_string_append)
  then have "hex_parse (filter (\<lambda>c. c \<noteq> CHR ''-'') (hyphenated u)) = Some u"
    using hex_parse_string_append [of u "[]"] by (simp only: uuid_pieces) simp
  then show ?thesis using u by (simp add: parse_hyphenated_def is_uuid_def)
qed

lemma le_order_inj:
  assumes "is_uuid u" "is_uuid v" "map (\<lambda>i. u ! i) le_order = map (\<lambda>i. v ! i) le_order"
  shows "u = v"
proof (rule nth_equalityI)
  show "length u = length v" using assms by (simp add: is_uuid_def)
next
  fix i assume "i < length u"
  then have "i \<in> {0..<16}" using assms(1) by (simp add: is_uuid_def)
  also have "{0..<16} = set le_order"
    by (simp only: set_upt [symmetric]) code_simp
  finally have "i \<in> set le_order" .
  then show "u ! i = v ! i" using assms(3) by simp
qed

lemma bit_be_bytes:
  assumes "n < 128"
  shows "bit (be_bytes w ! (15 - n div 8)) (n mod 8) = bit w n"
proof -
  have "n div 8 < 16" using assms by (simp add: less_mult_imp_div_less)
  then have "15 - (15 - n div 8) = n div 8" by linarith
  moreover have "n mod 8 + 8 * (n div 8) = n" by (rule mod_mult_div_eq)
  moreover have "n mod 8 < LENGTH(8)" by simp
  ultimately show ?thesis
    by (simp add: be_bytes_def bit_unsigned_iff bit_drop_bit_eq ac_simps del: len_bit0 len_num1)
qed

lemma be_bytes_inj:
  assumes "be_bytes w = be_bytes w'"
  shows "w = w'"
proof (rule bit_word_eqI)
  fix n assume "n < LENGTH(128)"
  then have n: "n < 128" by simp
  show "bit w n = bit w' n"
    using bit_be_bytes [OF n, of w] bit_be_bytes [OF n, of w'] assms by simp
qed

interpretation std: uuid_crate std_uuid
proof (unfold_locales, goal_cases)
  case (1 u) then show ?case by (simp add: std_uuid_def le_order_def)
next
  case (2 u v) then show ?case by (simp add: std_uuid_def le_order_inj)
next
  case (3 u) then show ?case by (simp add: std_uuid_def parse_hyphenated_inverse)
next
  case (4 s u) then show ?case
    by (auto simp: std_uuid_def parse_hyphenated_def is_uuid_def split: option.splits if_splits)
next
  case (5 w) then show ?case by (simp add: std_uuid_def be_bytes_def is_uuid_def)
next
  case (6 w w') then show ?case by (simp add: std_uuid_def be_bytes_inj)
qed

end
