(* ===== verification/Crypto_Basics.thy ===== *)
theory Crypto_Basics
  imports Hash_Domain Uuid
begin

text \<open>
  \<open>crypto/basics.rs\<close>: the protocol parameters, the connection identifier that
  both peers compute alike, the input of the key derivation with its packed byte
  layout, the derivation of the output key, and the two wire messages. The record
  \<open>etsi014_key\<close> is \<open>Etsi014Key\<close> of \<open>etsi014.rs\<close>.
\<close>

section \<open>Constants and protocol domains\<close>

definition REKEY_INTERVAL :: u64 where
  "REKEY_INTERVAL = 120"

definition PROTOCOL_DOMAIN :: "byte list" where
  "PROTOCOL_DOMAIN =
     as_bytes ''Daisyway v1 by Paul Spooren & Karolin Varner, Feb-2025 with Shake256''"

definition protocol_root :: "xof \<Rightarrow> hash_domain" where
  "protocol_root X = mix X hash_domain_zero PROTOCOL_DOMAIN"

definition protocol_derive_key :: "xof \<Rightarrow> hash_domain" where
  "protocol_derive_key X = mix X (protocol_root X) (as_bytes ''derive key'')"

section \<open>Parameters and connection identifier\<close>

type_synonym peer_id = key

record daisyway_protocol_parameters =
  psk :: key
  local_peer_id :: peer_id
  remote_peer_id :: peer_id

record etsi014_key =
  key_id :: uuid
  key_bytes :: key

record wireguard_connection_id =
  first_peer :: peer_id
  second_peer :: peer_id

definition wireguard_connection_id_new :: "peer_id \<Rightarrow> peer_id \<Rightarrow> wireguard_connection_id" where
  "wireguard_connection_id_new self_public_key peer_public_key =
     (let a = cas sort [self_public_key, peer_public_key]
      in \<lparr>first_peer = a ! 0, second_peer = a ! 1\<rparr>)"

definition connection_id_as_bytes :: "wireguard_connection_id \<Rightarrow> byte list" where
  "connection_id_as_bytes c = first_peer c @ second_peer c"

section \<open>Key derivation\<close>

record kdf_input =
  kdf_psk :: key
  kdf_nonce :: nonce
  kdf_qkd_key :: key
  kdf_qkd_key_id :: "byte list"
  kdf_connection_id :: wireguard_connection_id

definition kdf_input_new ::
  "uuid_ops \<Rightarrow> key \<Rightarrow> nonce \<Rightarrow> etsi014_key \<Rightarrow> wireguard_connection_id \<Rightarrow> kdf_input" where
  "kdf_input_new U p n qkd_key c = \<lparr>kdf_psk = p, kdf_nonce = n,
     kdf_qkd_key = key_bytes qkd_key, kdf_qkd_key_id = to_bytes_le U (key_id qkd_key),
     kdf_connection_id = c\<rparr>"

text \<open>The packed \<open>repr(C)\<close> layout: the fields in order, without padding.\<close>

definition kdf_input_as_bytes :: "kdf_input \<Rightarrow> byte list" where
  "kdf_input_as_bytes i = kdf_psk i @ kdf_nonce i @ kdf_qkd_key i @ kdf_qkd_key_id i
     @ connection_id_as_bytes (kdf_connection_id i)"

definition derive_daisyway_key ::
  "uuid_ops \<Rightarrow> xof \<Rightarrow> daisyway_protocol_parameters \<Rightarrow> nonce \<Rightarrow> etsi014_key \<Rightarrow> key" where
  "derive_daisyway_key U X params n key =
     (let conn_id = wireguard_connection_id_new (local_peer_id params) (remote_peer_id params);
          input = kdf_input_new U (psk params) n key conn_id
      in into_key (mix X (protocol_derive_key X) (kdf_input_as_bytes input)))"

section \<open>Wire messages\<close>

record rekey_req =
  req_qkd_key_id :: "byte list"
  req_nonce :: nonce

text \<open>The random nonce is drawn by the caller's environment.\<close>

definition rekey_req_new :: "nonce \<Rightarrow> byte list \<Rightarrow> rekey_req" where
  "rekey_req_new random_nonce i = \<lparr>req_qkd_key_id = i, req_nonce = random_nonce\<rparr>"

definition rekey_req_as_bytes :: "rekey_req \<Rightarrow> byte list" where
  "rekey_req_as_bytes r = req_qkd_key_id r @ req_nonce r"

definition rekey_req_of_bytes :: "byte list \<Rightarrow> rekey_req" where
  "rekey_req_of_bytes bs = \<lparr>req_qkd_key_id = take 16 bs, req_nonce = drop 16 bs\<rparr>"

definition REKEY_REQ_LENGTH :: nat where
  "REKEY_REQ_LENGTH = 16 + KEY_LENGTH"

record rekey_ack =
  dummy_data :: byte

definition REKEY_ACK :: rekey_ack where
  "REKEY_ACK = \<lparr>dummy_data = 1\<rparr>"

definition rekey_ack_as_bytes :: "rekey_ack \<Rightarrow> byte list" where
  "rekey_ack_as_bytes a = [dummy_data a]"

definition rekey_ack_of_bytes :: "byte list \<Rightarrow> rekey_ack" where
  "rekey_ack_of_bytes bs = \<lparr>dummy_data = hd bs\<rparr>"

definition REKEY_ACK_LENGTH :: nat where
  "REKEY_ACK_LENGTH = 1"

definition rekey_ack_validate :: "rekey_ack \<Rightarrow> unit outcome" where
  "rekey_ack_validate a = (if a = REKEY_ACK then Ok ()
     else Err (Fmt ''Rekey acknowledgement is invalid: Expected {REKEY_ACK:?} but received {self:?}''
            [Bytes (rekey_ack_as_bytes REKEY_ACK), Bytes (rekey_ack_as_bytes a)]))"

section \<open>Well-formed values\<close>

definition wf_params :: "daisyway_protocol_parameters \<Rightarrow> bool" where
  "wf_params p \<longleftrightarrow> is_key (psk p) \<and> is_key (local_peer_id p) \<and> is_key (remote_peer_id p)"

definition wf_etsi014_key :: "etsi014_key \<Rightarrow> bool" where
  "wf_etsi014_key k \<longleftrightarrow> is_uuid (key_id k) \<and> is_key (key_bytes k)"

definition wf_rekey_req :: "rekey_req \<Rightarrow> bool" where
  "wf_rekey_req r \<longleftrightarrow> is_uuid (req_qkd_key_id r) \<and> is_key (req_nonce r)"

text \<open>Two peers configured for one tunnel: the same pre-shared key, mirrored identities.\<close>

definition mirrored :: "daisyway_protocol_parameters \<Rightarrow> daisyway_protocol_parameters \<Rightarrow> bool" where
  "mirrored p q \<longleftrightarrow> psk p = psk q \<and> local_peer_id p = remote_peer_id q
     \<and> remote_peer_id p = local_peer_id q"

section \<open>Lemmas\<close>

lemma connection_id_new_eq:
  "wireguard_connection_id_new a b = (if a \<le> b then \<lparr>first_peer = a, second_peer = b\<rparr>
     else \<lparr>first_peer = b, second_peer = a\<rparr>)"
  by (simp add: wireguard_connection_id_new_def cas_def sort_pair Let_def)

lemma connection_id_new_sym:
  "wireguard_connection_id_new a b = wireguard_connection_id_new b a"
  by (auto simp: connection_id_new_eq)

lemma connection_id_new_inj:
  "wireguard_connection_id_new a b = wireguard_connection_id_new c d \<longleftrightarrow> {a, b} = {c, d}"
  by (auto simp: connection_id_new_eq doubleton_eq_iff)

lemma connection_id_peers:
  "is_key a \<Longrightarrow> is_key b \<Longrightarrow> is_key (first_peer (wireguard_connection_id_new a b))
     \<and> is_key (second_peer (wireguard_connection_id_new a b))"
  by (simp add: connection_id_new_eq)

lemma mirrored_sym: "mirrored p q \<longleftrightarrow> mirrored q p"
  by (auto simp: mirrored_def)

lemma derive_mirrored:
  "mirrored p q \<Longrightarrow> derive_daisyway_key U X p n k = derive_daisyway_key U X q n k"
  by (simp add: derive_daisyway_key_def mirrored_def
      connection_id_new_sym [of "local_peer_id q" "remote_peer_id q"])

lemma rekey_req_roundtrip:
  "wf_rekey_req r \<Longrightarrow> rekey_req_of_bytes (rekey_req_as_bytes r) = r"
  by (simp add: rekey_req_of_bytes_def rekey_req_as_bytes_def wf_rekey_req_def is_uuid_def)

lemma length_rekey_req:
  "wf_rekey_req r \<Longrightarrow> length (rekey_req_as_bytes r) = REKEY_REQ_LENGTH"
  by (simp add: rekey_req_as_bytes_def wf_rekey_req_def is_uuid_def is_key_def REKEY_REQ_LENGTH_def)

lemma rekey_ack_roundtrip [simp]: "rekey_ack_of_bytes (rekey_ack_as_bytes a) = a"
  by (simp add: rekey_ack_of_bytes_def rekey_ack_as_bytes_def)

lemma length_rekey_ack [simp]: "length (rekey_ack_as_bytes a) = REKEY_ACK_LENGTH"
  by (simp add: rekey_ack_as_bytes_def REKEY_ACK_LENGTH_def)

lemma rekey_ack_validate_Ok [simp]: "rekey_ack_validate a = Ok () \<longleftrightarrow> dummy_data a = 1"
  by (cases a) (simp add: rekey_ack_validate_def REKEY_ACK_def)

lemma rekey_ack_validate_not_Panic [simp]: "rekey_ack_validate a \<noteq> Panic m"
  by (simp add: rekey_ack_validate_def)

context shake256
begin

lemma derive_is_key: "is_key (derive_daisyway_key U X p n k)"
  using mix_wf by (simp add: derive_daisyway_key_def into_key_def wf_domain_def Let_def)

lemma derive_eq: "derive_daisyway_key U X p n k =
  X (domain_key (protocol_derive_key X) @ kdf_input_as_bytes (kdf_input_new U (psk p) n k
       (wireguard_connection_id_new (local_peer_id p) (remote_peer_id p)))) KEY_LENGTH"
  by (simp add: derive_daisyway_key_def into_key_def mix_key Let_def)

end

context uuid_crate
begin

lemma length_kdf_input:
  assumes "wf_params p" "is_key n" "wf_etsi014_key k"
  shows "length (kdf_input_as_bytes (kdf_input_new U (psk p) n k
           (wireguard_connection_id_new (local_peer_id p) (remote_peer_id p)))) = 176"
  using assms connection_id_peers [of "local_peer_id p" "remote_peer_id p"]
  by (simp add: kdf_input_as_bytes_def kdf_input_new_def connection_id_as_bytes_def wf_params_def
      wf_etsi014_key_def is_key_def KEY_LENGTH_def le_length)

lemma kdf_input_inj:
  assumes p: "wf_params p" "is_key n" "wf_etsi014_key k"
    and q: "wf_params q" "is_key m" "wf_etsi014_key l"
    and eq: "kdf_input_as_bytes (kdf_input_new U (psk p) n k
        (wireguard_connection_id_new (local_peer_id p) (remote_peer_id p)))
      = kdf_input_as_bytes (kdf_input_new U (psk q) m l
        (wireguard_connection_id_new (local_peer_id q) (remote_peer_id q)))"
  shows "psk p = psk q \<and> n = m \<and> k = l
     \<and> {local_peer_id p, remote_peer_id p} = {local_peer_id q, remote_peer_id q}"
proof -
  let ?c = "wireguard_connection_id_new (local_peer_id p) (remote_peer_id p)"
  let ?d = "wireguard_connection_id_new (local_peer_id q) (remote_peer_id q)"
  have len: "length (psk p) = length (psk q)" "length n = length m"
    "length (key_bytes k) = length (key_bytes l)"
    "length (to_bytes_le U (key_id k)) = length (to_bytes_le U (key_id l))"
    "length (first_peer ?c) = length (first_peer ?d)"
    using p q le_length connection_id_peers [of "local_peer_id p" "remote_peer_id p"]
      connection_id_peers [of "local_peer_id q" "remote_peer_id q"]
    by (simp_all add: wf_params_def wf_etsi014_key_def is_key_def)
  have "psk p = psk q \<and> n = m \<and> key_bytes k = key_bytes l
    \<and> to_bytes_le U (key_id k) = to_bytes_le U (key_id l) \<and> first_peer ?c = first_peer ?d
    \<and> second_peer ?c = second_peer ?d"
    using eq len by (simp add: kdf_input_as_bytes_def kdf_input_new_def connection_id_as_bytes_def)
  moreover from this have "?c = ?d" by simp
  ultimately show ?thesis
    using p q le_inj [of "key_id k" "key_id l"]
    by (auto simp: connection_id_new_inj wf_etsi014_key_def)
qed

end

section \<open>Properties\<close>

definition example_params :: daisyway_protocol_parameters where
  "example_params = \<lparr>psk = replicate 32 9, local_peer_id = replicate 32 2,
     remote_peer_id = replicate 32 1\<rparr>"

definition example_etsi_key :: etsi014_key where
  "example_etsi_key = \<lparr>key_id = replicate 16 5, key_bytes = replicate 32 6\<rparr>"

lemma wf_examples [simp]: "wf_params example_params" "wf_etsi014_key example_etsi_key"
  "is_key (replicate 32 (b :: byte))"
  by (simp_all add: wf_params_def wf_etsi014_key_def example_params_def example_etsi_key_def
      is_key_def is_uuid_def KEY_LENGTH_def)

text \<open>
  The message that is hashed into the output key, spelled out: the key of the
  protocol domain, the pre-shared key, the nonce, the QKD key and its identifier,
  and the peers in the order of their identities.
\<close>

definition kdf_message ::
  "uuid_ops \<Rightarrow> xof \<Rightarrow> daisyway_protocol_parameters \<Rightarrow> nonce \<Rightarrow> etsi014_key \<Rightarrow> byte list" where
  "kdf_message U X p n k =
     X (X (replicate 32 0 @ PROTOCOL_DOMAIN) 32 @ as_bytes ''derive key'') 32
     @ psk p @ n @ key_bytes k @ to_bytes_le U (key_id k)
     @ min (local_peer_id p) (remote_peer_id p) @ max (local_peer_id p) (remote_peer_id p)"

lemma kdf_message_eq:
  assumes "shake256 X"
  shows "kdf_message U X p n k = domain_key (protocol_derive_key X)
     @ kdf_input_as_bytes (kdf_input_new U (psk p) n k
         (wireguard_connection_id_new (local_peer_id p) (remote_peer_id p)))"
  by (simp add: kdf_message_def protocol_derive_key_def protocol_root_def hash_domain_zero_def
      hash_domain_new_def shake256.mix_key [OF assms] key_new_zeroed_def KEY_LENGTH_def
      kdf_input_as_bytes_def kdf_input_new_def connection_id_as_bytes_def connection_id_new_eq
      min_def max_def)

text \<open>
  C8: the derived key binds every input. The output key is the 32-byte SHAKE256
  output over a message built from the derivation's inputs, and the messages of two
  derivations are equal exactly when the derivations have the same pre-shared key,
  the same nonce, the same QKD key and the same pair of peers. So two derivations
  with different inputs give the same key only if SHAKE256 collides on precisely
  these two messages.
\<close>

theorem derive_binds_inputs:
  assumes "uuid_crate U" and "shake256 X"
    and "wf_params p" and "is_key n" and "wf_etsi014_key k"
    and "wf_params q" and "is_key m" and "wf_etsi014_key l"
  shows "derive_daisyway_key U X p n k = X (kdf_message U X p n k) 32
    \<and> (kdf_message U X p n k = kdf_message U X q m l
       \<longleftrightarrow> psk p = psk q \<and> n = m \<and> k = l
         \<and> {local_peer_id p, remote_peer_id p} = {local_peer_id q, remote_peer_id q})"
proof
  show "derive_daisyway_key U X p n k = X (kdf_message U X p n k) 32"
    by (simp add: shake256.derive_eq [OF assms(2)] kdf_message_eq [OF assms(2)] KEY_LENGTH_def)
  show "kdf_message U X p n k = kdf_message U X q m l \<longleftrightarrow> psk p = psk q \<and> n = m \<and> k = l
      \<and> {local_peer_id p, remote_peer_id p} = {local_peer_id q, remote_peer_id q}"
    using uuid_crate.kdf_input_inj [OF assms(1,3-8)]
    by (auto simp: kdf_message_eq [OF assms(2)]
        intro: arg_cong [where f = "\<lambda>c. kdf_input_as_bytes (kdf_input_new U (psk q) m l c)"]
        simp flip: connection_id_new_inj)
qed

theorem derive_binds_inputs_witness:
  "derive_daisyway_key std_uuid fips202_shake256 example_params (replicate 32 3) example_etsi_key
     = fips202_shake256 (kdf_message std_uuid fips202_shake256 example_params (replicate 32 3) example_etsi_key) 32
   \<and> kdf_message std_uuid fips202_shake256 example_params (replicate 32 3) example_etsi_key
     \<noteq> kdf_message std_uuid fips202_shake256 example_params (replicate 32 4) example_etsi_key"
  using derive_binds_inputs [OF std.uuid_crate_axioms fips202.shake256_axioms wf_examples(1)
      wf_examples(3) [of 3] wf_examples(2) wf_examples(1) wf_examples(3) [of 4] wf_examples(2)]
  by (simp add: replicate_eq_replicate)

end
