(* ===== verification/Etsi014.thy ===== *)
theory Etsi014
  imports Crypto_Basics
begin

text \<open>
  \<open>internal/etsi014.rs\<close>: the ETSI 014 client. The TLS part wraps the WebPKI
  verifier so that a certificate for another name is accepted, and assembles the
  client configuration; the HTTP part builds the two request URIs, checks the
  status, and converts the JSON response into one key. The crates \<open>rustls\<close> and
  \<open>reqwest\<close> are parameters (\<open>tls_ops\<close> and the HTTP \<open>client\<close> field).
\<close>

section \<open>Certificate verification without the server name\<close>

text \<open>The two name errors and the remaining ones of \<open>rustls::CertificateError\<close>.\<close>

datatype certificate_error =
    NotValidForName
  | NotValidForNameContext string "string list"
  | Other_certificate_error nat

datatype rustls_error = InvalidCertificate certificate_error | Other_rustls_error nat

record cert_query =
  end_entity :: "byte list"
  intermediates :: "byte list list"
  server_name :: string
  ocsp :: "byte list"
  unix_now :: nat

record sig_query =
  sig_message :: "byte list"
  sig_cert :: "byte list"
  sig_dss :: "byte list"

record server_cert_verifier =
  verify_cert :: "cert_query \<Rightarrow> rustls_error + unit"
  verify_tls12 :: "sig_query \<Rightarrow> rustls_error + unit"
  verify_tls13 :: "sig_query \<Rightarrow> rustls_error + unit"
  verify_schemes :: "nat list"

definition verify_server_cert :: "server_cert_verifier \<Rightarrow> cert_query \<Rightarrow> rustls_error + unit" where
  "verify_server_cert inner q = (case verify_cert inner q of
       Inr scv \<Rightarrow> Inr scv
     | Inl (InvalidCertificate cert_error) \<Rightarrow> (case cert_error of
           NotValidForName \<Rightarrow> Inr ()
         | NotValidForNameContext expected presented \<Rightarrow> Inr ()
         | _ \<Rightarrow> Inl (InvalidCertificate cert_error))
     | Inl e \<Rightarrow> Inl e)"

text \<open>\<open>NoServerNameVerification::new\<close>: the wrapped verifier as a verifier.\<close>

definition no_server_name_verification :: "server_cert_verifier \<Rightarrow> server_cert_verifier" where
  "no_server_name_verification inner = \<lparr>verify_cert = verify_server_cert inner,
     verify_tls12 = verify_tls12 inner, verify_tls13 = verify_tls13 inner,
     verify_schemes = verify_schemes inner\<rparr>"

section \<open>Configuration\<close>

type_synonym cert = "byte list"
type_synonym private_key = "byte list"

record client_auth =
  tls_cert :: string
  tls_key :: string

record etsi014_config =
  cfg_url :: string
  cfg_remote_sae_id :: string
  interval_secs :: "u64 option"
  tls_cacert :: "string option"
  cfg_client_auth :: "client_auth option"
  danger_allow_insecure_no_server_name_certificates :: bool

record client_config =
  config_roots :: "cert list"
  config_client_auth :: "(cert list \<times> private_key) option"
  custom_verifier :: "server_cert_verifier option"

text \<open>
  What the program calls of \<open>rustls\<close>: reading PEM files, adding a root,
  checking a client certificate against its key, building the WebPKI verifier.
\<close>

record tls_ops =
  cert_from_pem_file :: "string \<Rightarrow> cert outcome"
  key_from_pem_file :: "string \<Rightarrow> private_key outcome"
  roots_add :: "cert list \<Rightarrow> cert \<Rightarrow> cert list outcome"
  with_client_auth_cert :: "cert list \<Rightarrow> private_key \<Rightarrow> unit outcome"
  webpki_verifier_build :: "cert list \<Rightarrow> server_cert_verifier outcome"

definition verifier_from_roots :: "tls_ops \<Rightarrow> cert list \<Rightarrow> server_cert_verifier outcome" where
  "verifier_from_roots T roots =
     bind_outcome (webpki_verifier_build T roots) (\<lambda>inner. Ok (no_server_name_verification inner))"

definition load_roots :: "tls_ops \<Rightarrow> etsi014_config \<Rightarrow> cert list outcome" where
  "load_roots T config = (case tls_cacert config of
       None \<Rightarrow> Ok []
     | Some cacert_path \<Rightarrow>
         bind_outcome (context_outcome ''Failed to read TLS CA certificate from file {:?}''
             [Str cacert_path] (cert_from_pem_file T cacert_path))
           (\<lambda>cacert. context_outcome ''Failed to add TLS CA certificate to RootCertStore'' []
             (roots_add T [] cacert)))"

definition load_client_auth :: "tls_ops \<Rightarrow> etsi014_config \<Rightarrow> (cert list \<times> private_key) option outcome" where
  "load_client_auth T config = (case cfg_client_auth config of
       None \<Rightarrow> Ok None
     | Some auth \<Rightarrow>
         bind_outcome (context_outcome ''Failed to read TLS client certificate from file {:?}''
             [Str (tls_cert auth)] (cert_from_pem_file T (tls_cert auth)))
           (\<lambda>cert. bind_outcome (context_outcome ''Failed to read TLS client key from file {:?}''
               [Str (tls_key auth)] (key_from_pem_file T (tls_key auth)))
             (\<lambda>key. bind_outcome (with_client_auth_cert T [cert] key)
               (\<lambda>_. Ok (Some ([cert], key))))))"

text \<open>
  \<open>configure_rustls\<close>; the boolean state is whether the process already has a
  default crypto provider, which \<open>install_default\<close> refuses to replace.
\<close>

definition configure_rustls ::
  "tls_ops \<Rightarrow> etsi014_config \<Rightarrow> bool \<Rightarrow> client_config option outcome \<times> bool" where
  "configure_rustls T config installed =
     (if installed then (Panic ''Failed to install rustls crypto provider'', True)
      else (bind_outcome (load_roots T config) (\<lambda>tls_roots.
              bind_outcome (load_client_auth T config) (\<lambda>auth.
                let rustls_config = \<lparr>config_roots = tls_roots, config_client_auth = auth,
                      custom_verifier = None\<rparr> in
                if danger_allow_insecure_no_server_name_certificates config
                then bind_outcome (verifier_from_roots T tls_roots) (\<lambda>v.
                       Ok (Some (rustls_config\<lparr>custom_verifier := Some v\<rparr>)))
                else Ok (Some rustls_config))), True))"

section \<open>Responses\<close>

record response_key =
  response_id :: uuid
  response_text :: string

type_synonym response_keys = "response_key list"

definition etsi014_key_empty :: etsi014_key where
  "etsi014_key_empty = \<lparr>key_id = uuid_nil, key_bytes = key_new_zeroed\<rparr>"

definition try_from_response_key :: "base64_ops \<Rightarrow> response_key \<Rightarrow> etsi014_key outcome" where
  "try_from_response_key B v =
     (if b64_encoded_len B (as_bytes (response_text v)) = const_len key_new_zeroed
      then Panic ''assertion failed: Base64::encoded_len(key.as_bytes()) != Key::LEN''
      else bind_outcome (unwrap_outcome ''called Result::unwrap() on an Err value''
             (of_sum B64 (b64_decode B (as_bytes (response_text v)) KEY_LENGTH)))
           (\<lambda>decoded. if length decoded = KEY_LENGTH
              then Ok \<lparr>key_id = response_id v, key_bytes = decoded\<rparr> else Err TryFromSlice))"

definition try_from_response_keys :: "base64_ops \<Rightarrow> response_keys \<Rightarrow> etsi014_key outcome" where
  "try_from_response_keys B ks =
     (if length ks \<noteq> 1
      then Err (Fmt ''Expected exactly one key, but got {} keys'' [Num (length ks)])
      else try_from_response_key B (hd ks))"

section \<open>The connection\<close>

text \<open>
  An answer of the key management entity: its status, its text, and its body read
  as JSON (either may fail while being received or parsed). \<open>'w\<close> is the state
  of the world behind the HTTP client.
\<close>

record http_response =
  status :: nat
  body_text :: "string outcome"
  body_json :: "response_keys outcome"

type_synonym 'w http_get = "string \<Rightarrow> 'w \<Rightarrow> http_response outcome \<times> 'w"

record 'w etsi014_connection =
  url :: string
  remote_sae_id :: string
  client :: "'w http_get"

definition etsi014_connection_new :: "string \<Rightarrow> string \<Rightarrow> 'w http_get \<Rightarrow> 'w etsi014_connection" where
  "etsi014_connection_new u sae c = \<lparr>url = u, remote_sae_id = sae, client = c\<rparr>"

text \<open>\<open>build_client\<close> stands for the HTTP client builder of \<open>reqwest\<close>.\<close>

definition etsi014_from_config ::
  "tls_ops \<Rightarrow> (client_config option \<Rightarrow> 'w http_get outcome) \<Rightarrow> etsi014_config \<Rightarrow> bool
     \<Rightarrow> 'w etsi014_connection outcome \<times> bool" where
  "etsi014_from_config T build_client config installed =
     bind_st (configure_rustls T config installed) (\<lambda>tls installed.
       (bind_outcome (build_client tls) (\<lambda>c.
          Ok (etsi014_connection_new (cfg_url config) (cfg_remote_sae_id config) c)), installed))"

definition is_success :: "nat \<Rightarrow> bool" where
  "is_success s \<longleftrightarrow> 200 \<le> s \<and> s < 300"

definition fetch_key_internal ::
  "base64_ops \<Rightarrow> 'w etsi014_connection \<Rightarrow> string \<Rightarrow> 'w \<Rightarrow> etsi014_key outcome \<times> 'w" where
  "fetch_key_internal B conn uri w =
     bind_st (client conn uri w) (\<lambda>response w.
       (if \<not> is_success (status response)
        then bind_outcome (body_text response) (\<lambda>text.
               Err (Fmt ''ETSI 014 URL {} returned status code {}: {}''
                 [Str uri, Num (status response), Str text]))
        else bind_outcome (body_json response) (try_from_response_keys B), w))"

definition enc_keys_uri :: "'w etsi014_connection \<Rightarrow> string" where
  "enc_keys_uri conn = url conn @ ''/api/v1/keys/'' @ remote_sae_id conn
     @ ''/enc_keys?number=1&key_length=256''"

definition dec_keys_uri :: "uuid_ops \<Rightarrow> 'w etsi014_connection \<Rightarrow> uuid \<Rightarrow> string" where
  "dec_keys_uri U conn i = url conn @ ''/api/v1/keys/'' @ remote_sae_id conn
     @ ''/dec_keys?key_ID='' @ uuid_to_string U i"

definition fetch_any_key ::
  "base64_ops \<Rightarrow> 'w etsi014_connection \<Rightarrow> 'w \<Rightarrow> etsi014_key outcome \<times> 'w" where
  "fetch_any_key B conn w =
     context_st ''Error Fetching unspecific key from ETSI014 URL.'' []
       (fetch_key_internal B conn (enc_keys_uri conn) w)"

definition fetch_specific_key ::
  "base64_ops \<Rightarrow> uuid_ops \<Rightarrow> 'w etsi014_connection \<Rightarrow> uuid \<Rightarrow> 'w \<Rightarrow> etsi014_key outcome \<times> 'w" where
  "fetch_specific_key B U conn i w =
     context_st ''Error Fetching specific key from ETSI014 URL. (key id={id})'' []
       (fetch_key_internal B conn (dec_keys_uri U conn i) w)"

section \<open>Lemmas\<close>

lemma try_from_response_keys_single [simp]:
  "try_from_response_keys B [k] = try_from_response_key B k"
  by (simp add: try_from_response_keys_def)

lemma try_from_response_keys_Ok:
  "try_from_response_keys B ks = Ok k \<longleftrightarrow> (\<exists>v. ks = [v] \<and> try_from_response_key B v = Ok k)"
  by (cases ks) (auto simp: try_from_response_keys_def)

lemma fetch_key_internal_Ok:
  "fetch_key_internal B conn uri w = (Ok k, w') \<longleftrightarrow>
    (\<exists>r. client conn uri w = (Ok r, w') \<and> is_success (status r)
       \<and> bind_outcome (body_json r) (try_from_response_keys B) = Ok k)"
  by (auto simp: fetch_key_internal_def outcome_inv split: if_splits simp del: bind_outcome_Ok)
    (auto split: if_splits)

lemma fetch_any_key_Ok:
  "fetch_any_key B conn w = (Ok k, w') \<longleftrightarrow> fetch_key_internal B conn (enc_keys_uri conn) w = (Ok k, w')"
  by (simp add: fetch_any_key_def outcome_inv)

lemma fetch_specific_key_Ok:
  "fetch_specific_key B U conn i w = (Ok k, w') \<longleftrightarrow>
     fetch_key_internal B conn (dec_keys_uri U conn i) w = (Ok k, w')"
  by (simp add: fetch_specific_key_def outcome_inv)

context base64ct
begin

lemma try_from_response_key_Ok:
  "try_from_response_key B v = Ok k \<longleftrightarrow>
     b64_decode B (as_bytes (response_text v)) KEY_LENGTH = Inr (key_bytes k)
     \<and> is_key (key_bytes k) \<and> key_id k = response_id v"
proof -
  let ?s = "as_bytes (response_text v)"
  have "b64_encoded_len B ?s \<noteq> KEY_LENGTH" if "b64_decode B ?s KEY_LENGTH = Inr bs" "length bs = 32" for bs
    using decode_32_iff_44 [OF that] by (simp add: encoded_len padded_len_def KEY_LENGTH_def)
  then show ?thesis
    by (cases k) (auto simp: try_from_response_key_def is_key_def KEY_LENGTH_def)
qed

lemma fetch_key_internal_is_key:
  "fetch_key_internal B conn uri w = (Ok k, w') \<Longrightarrow> is_key (key_bytes k)"
  by (auto simp: fetch_key_internal_Ok try_from_response_keys_Ok try_from_response_key_Ok)

end

section \<open>Properties\<close>

text \<open>
  C30: fetching a key for an identifier succeeds exactly when the server answers
  the \<open>dec_keys\<close> request with a 2xx status and a list of one key whose text is
  the base64 form of exactly 32 bytes; the result is those bytes under the
  identifier of the answer.
\<close>

theorem fetch_specific_key_success:
  assumes "base64ct B"
  shows "fetch_specific_key B U conn i w = (Ok k, w') \<longleftrightarrow>
    (\<exists>r v. client conn (url conn @ ''/api/v1/keys/'' @ remote_sae_id conn
              @ ''/dec_keys?key_ID='' @ uuid_to_string U i) w = (Ok r, w')
       \<and> 200 \<le> status r \<and> status r < 300 \<and> body_json r = Ok [v]
       \<and> b64_decode B (as_bytes (response_text v)) 32 = Inr (key_bytes k)
       \<and> length (key_bytes k) = 32 \<and> key_id k = response_id v)"
  by (auto simp: fetch_specific_key_Ok fetch_key_internal_Ok dec_keys_uri_def is_success_def
      try_from_response_keys_Ok base64ct.try_from_response_key_Ok [OF assms] is_key_def KEY_LENGTH_def)

definition const_connection :: "response_keys \<Rightarrow> unit etsi014_connection" where
  "const_connection ks = etsi014_connection_new ''http://kme'' ''SAE''
     (\<lambda>uri w. (Ok \<lparr>status = 200, body_text = Ok [], body_json = Ok ks\<rparr>, w))"

theorem fetch_specific_key_success_witness:
  "fetch_specific_key rfc4648 std_uuid (const_connection
      [\<lparr>response_id = uuid_nil, response_text = string_of_bytes (rfc_encode (replicate 32 7))\<rparr>])
     uuid_nil () = (Ok \<lparr>key_id = uuid_nil, key_bytes = replicate 32 7\<rparr>, ())"
proof -
  have "b64_decode rfc4648 (rfc_encode (replicate 32 7)) 32 = Inr (replicate 32 7)"
    by (simp add: rfc4648_def rfc_decode_encode)
  then show ?thesis
    by (subst fetch_specific_key_success [OF rfc.base64ct_axioms])
      (simp add: const_connection_def etsi014_connection_new_def)
qed

text \<open>
  C39: a key text that is not valid base64 for at most 32 bytes does not give an
  error the caller could handle: the fetch panics.
\<close>

theorem malformed_key_panics:
  assumes "client conn (enc_keys_uri conn) w = (Ok r, w')" and "is_success (status r)"
    and "body_json r = Ok [v]"
    and "b64_decode B (as_bytes (response_text v)) KEY_LENGTH = Inl e"
  shows "is_Panic (fst (fetch_any_key B conn w))"
  using assms by (simp add: fetch_any_key_def fetch_key_internal_def try_from_response_key_def)

theorem malformed_key_panics_witness:
  "is_Panic (fst (fetch_any_key rfc4648 (const_connection
     [\<lparr>response_id = uuid_nil, response_text = ''A''\<rparr>]) ()))"
  by (rule malformed_key_panics [where w' = "()" and e = InvalidEncoding
        and r = "\<lparr>status = 200, body_text = Ok [],
              body_json = Ok [\<lparr>response_id = uuid_nil, response_text = ''A''\<rparr>]\<rparr>"
        and v = "\<lparr>response_id = uuid_nil, response_text = ''A''\<rparr>"])
    (simp_all add: const_connection_def etsi014_connection_new_def is_success_def rfc4648_def
      as_bytes_def)

text \<open>
  C31: the verifier without server name check accepts a certificate exactly when
  the WebPKI verifier accepts it or rejects it for its name only; every other
  rejection, the signature checks and the schemes are those of the WebPKI verifier.
\<close>

theorem no_server_name_verification_accepts:
  "(verify_cert (no_server_name_verification V) q = Inr () \<longleftrightarrow>
      verify_cert V q = Inr ()
      \<or> verify_cert V q = Inl (InvalidCertificate NotValidForName)
      \<or> (\<exists>expected presented.
           verify_cert V q = Inl (InvalidCertificate (NotValidForNameContext expected presented))))
   \<and> (verify_cert (no_server_name_verification V) q \<in> {Inr (), verify_cert V q})
   \<and> verify_tls12 (no_server_name_verification V) = verify_tls12 V
   \<and> verify_tls13 (no_server_name_verification V) = verify_tls13 V
   \<and> verify_schemes (no_server_name_verification V) = verify_schemes V"
  by (auto simp: no_server_name_verification_def verify_server_cert_def
      split: sum.splits rustls_error.splits certificate_error.splits)

text \<open>
  C32: a successful TLS configuration always is a configuration (the \<open>None\<close>
  branch of \<open>from_config\<close> is dead), trusts exactly the configured CA
  certificate and nothing when none is configured, and replaces the verifier only
  when the insecure option is set. The second configuration of a process panics.
\<close>

theorem configure_rustls_result:
  assumes "\<And>c rs. roots_add T [] c = Ok rs \<Longrightarrow> rs = [c]"
  shows "configure_rustls T config False = (Ok res, st) \<Longrightarrow>
    \<exists>cc. res = Some cc \<and> st
      \<and> (case tls_cacert config of None \<Rightarrow> config_roots cc = []
         | Some path \<Rightarrow> \<exists>c. cert_from_pem_file T path = Ok c \<and> config_roots cc = [c])
      \<and> (custom_verifier cc \<noteq> None \<longleftrightarrow> danger_allow_insecure_no_server_name_certificates config)
      \<and> is_Panic (fst (configure_rustls T config st))"
  using assms
  by (auto simp: configure_rustls_def load_roots_def Let_def split: option.splits if_splits)

definition example_config :: etsi014_config where
  "example_config = \<lparr>cfg_url = ''http://kme'', cfg_remote_sae_id = ''SAE'', interval_secs = None,
     tls_cacert = None, cfg_client_auth = None,
     danger_allow_insecure_no_server_name_certificates = False\<rparr>"

definition example_tls :: tls_ops where
  "example_tls = \<lparr>cert_from_pem_file = (\<lambda>p. Ok [1]), key_from_pem_file = (\<lambda>p. Ok [2]),
     roots_add = (\<lambda>rs c. Ok (rs @ [c])), with_client_auth_cert = (\<lambda>cs k. Ok ()),
     webpki_verifier_build = (\<lambda>rs. if rs = [] then Err (Foreign 0) else
        Ok \<lparr>verify_cert = (\<lambda>q. Inr ()), verify_tls12 = (\<lambda>q. Inr ()),
            verify_tls13 = (\<lambda>q. Inr ()), verify_schemes = []\<rparr>)\<rparr>"

theorem configure_rustls_result_witness:
  "(\<exists>cc. fst (configure_rustls example_tls (example_config\<lparr>tls_cacert := Some ''ca.crt''\<rparr>) False)
       = Ok (Some cc) \<and> config_roots cc = [[1]] \<and> custom_verifier cc = None)
   \<and> (\<exists>cc. fst (configure_rustls example_tls example_config False) = Ok (Some cc) \<and> config_roots cc = [])"
proof -
  have add: "roots_add example_tls [] c = Ok rs \<Longrightarrow> rs = [c]" for c rs
    by (simp add: example_tls_def)
  let ?cfg = "example_config\<lparr>tls_cacert := Some ''ca.crt''\<rparr>"
  obtain r where r: "configure_rustls example_tls ?cfg False = (Ok r, True)"
    by (simp add: configure_rustls_def load_roots_def load_client_auth_def Let_def
        example_config_def example_tls_def)
  obtain r' where r': "configure_rustls example_tls example_config False = (Ok r', True)"
    by (simp add: configure_rustls_def load_roots_def load_client_auth_def Let_def
        example_config_def example_tls_def)
  show ?thesis
    using configure_rustls_result [OF add r] configure_rustls_result [OF add r'] r r'
    by (auto simp: example_config_def example_tls_def)
qed

end
