(* ===== verification/Osk.thy ===== *)
theory Osk
  imports Util
begin

text \<open>
  \<open>internal/osk/mod.rs\<close>, \<open>outfile.rs\<close> and \<open>wireguard.rs\<close>: the handlers of
  the output key. The trait \<open>OskHandler\<close> is its one required method
  \<open>set_osk\<close>, an argument of the definitions that work with any handler; the two
  provided methods are definitions over it. The locale \<open>osk_sink\<close> is the
  contract of a handler that installs the key at once, and both the file handler
  and the WireGuard handler are shown to meet it.
\<close>

section \<open>The trait\<close>

datatype set_osk_reason = Fresh | Stale

text \<open>The derived order follows the order of the variants.\<close>

instantiation set_osk_reason :: linorder
begin

definition less_eq_set_osk_reason :: "set_osk_reason \<Rightarrow> set_osk_reason \<Rightarrow> bool" where
  "less_eq_set_osk_reason a b \<longleftrightarrow> a = Fresh \<or> b = Stale"

definition less_set_osk_reason :: "set_osk_reason \<Rightarrow> set_osk_reason \<Rightarrow> bool" where
  "less_set_osk_reason a b \<longleftrightarrow> a = Fresh \<and> b = Stale"

instance
  by standard (auto simp: less_eq_set_osk_reason_def less_set_osk_reason_def intro: set_osk_reason.exhaust)

end

type_synonym ('h, 'w) set_osk = "'h \<Rightarrow> key \<Rightarrow> set_osk_reason \<Rightarrow> 'w \<Rightarrow> unit outcome \<times> 'w"

definition set_fresh_osk :: "('h, 'w) set_osk \<Rightarrow> 'h \<Rightarrow> key \<Rightarrow> 'w \<Rightarrow> unit outcome \<times> 'w" where
  "set_fresh_osk set_osk h k w = set_osk h k Fresh w"

text \<open>The random key is drawn by the environment.\<close>

definition erase_stale_osk :: "('h, 'w) set_osk \<Rightarrow> key \<Rightarrow> 'h \<Rightarrow> 'w \<Rightarrow> unit outcome \<times> 'w" where
  "erase_stale_osk set_osk random_key h w = set_osk h random_key Stale w"

text \<open>
  \<open>installed h w\<close> is the key the handler's target holds; \<open>ready\<close> is what the
  target must keep offering for a successful call to mean that the key is installed.
\<close>

locale osk_sink =
  fixes set_osk :: "('h, 'w) set_osk"
    and installed :: "'h \<Rightarrow> 'w \<Rightarrow> key option"
    and ready :: "'h \<Rightarrow> 'w \<Rightarrow> bool"
  assumes set_installs: "ready h w \<Longrightarrow> is_key k \<Longrightarrow> set_osk h k r w = (Ok (), w') \<Longrightarrow>
        installed h w' = Some k"
    and set_ready: "ready h w \<Longrightarrow> is_key k \<Longrightarrow> set_osk h k r w = (Ok (), w') \<Longrightarrow> ready h w'"
begin

lemma erase_replaces:
  assumes "ready h w" "is_key rnd" "erase_stale_osk set_osk rnd h w = (Ok (), w')"
  shows "installed h w' = Some rnd" and "ready h w'"
  using assms set_installs set_ready by (auto simp: erase_stale_osk_def)

lemma set_fresh_installs:
  assumes "ready h w" "is_key k" "set_fresh_osk set_osk h k w = (Ok (), w')"
  shows "installed h w' = Some k" and "ready h w'"
  using assms set_installs set_ready by (auto simp: set_fresh_osk_def)

end

text \<open>A sink that, once ready, takes every key.\<close>

locale reliable_sink = osk_sink +
  assumes set_succeeds: "ready h w \<Longrightarrow> is_key k \<Longrightarrow> \<exists>w'. set_osk h k r w = (Ok (), w')"
begin

lemma set_runs:
  assumes "ready h w" "is_key k"
  obtains w' where "set_osk h k r w = (Ok (), w')" "installed h w' = Some k" "ready h w'"
  using set_succeeds [OF assms] set_installs [OF assms] set_ready [OF assms] by blast

end

section \<open>The file handler\<close>

record outfile_osk_handler =
  out_path :: string

definition outfile_osk_handler_new :: "string \<Rightarrow> outfile_osk_handler" where
  "outfile_osk_handler_new path = \<lparr>out_path = path\<rparr>"

text \<open>
  The files, the lines printed to the standard output, and whether the standard
  output refuses to be written (\<open>println!\<close> panics then).
\<close>

record outfile_world =
  out_fs :: filesystem
  out_stdout :: "(string \<times> string) list"
  stdout_fails :: bool

definition println_output_key :: "string \<Rightarrow> string \<Rightarrow> outfile_world \<Rightarrow> unit outcome \<times> outfile_world" where
  "println_output_key path why w =
     (if stdout_fails w then (Panic ''failed printing to stdout'', w)
      else (Ok (), w\<lparr>out_stdout := out_stdout w @ [(path, why)]\<rparr>))"

definition file_create :: "string \<Rightarrow> filesystem \<Rightarrow> unit outcome \<times> filesystem" where
  "file_create path fs = (case create_error fs path of
       Some k \<Rightarrow> (Err (Io k), fs)
     | None \<Rightarrow> (Ok (), fs\<lparr>files := (files fs)(path := Some [])\<rparr>))"

definition file_write_all :: "string \<Rightarrow> byte list \<Rightarrow> filesystem \<Rightarrow> unit outcome \<times> filesystem" where
  "file_write_all path bs fs = (case write_quota fs path of
       None \<Rightarrow> (Ok (), fs\<lparr>files := (files fs)(path := Some bs)\<rparr>)
     | Some q \<Rightarrow> (if length bs \<le> q then Ok () else Err (Io (Other_io 0)),
                   fs\<lparr>files := (files fs)(path := Some (take q bs))\<rparr>))"

definition outfile_set_osk :: "base64_ops \<Rightarrow> (outfile_osk_handler, outfile_world) set_osk" where
  "outfile_set_osk B h key reason w =
     (let why = (case reason of Fresh \<Rightarrow> ''exchanged'' | Stale \<Rightarrow> ''stale'') in
      bind_st (unwrap_outcome ''unwrap'' (of_sum B64 (b64_encode B key KEY_LENGTH_B64)), w)
        (\<lambda>text w. let (created, fs) = file_create (out_path h) (out_fs w) in
          bind_st (unwrap_outcome ''Failed to create file'' created, w\<lparr>out_fs := fs\<rparr>)
            (\<lambda>_ w. let (written, fs) = file_write_all (out_path h) text (out_fs w) in
              bind_st (unwrap_outcome ''Failed to write PSK to file {}'' written, w\<lparr>out_fs := fs\<rparr>)
                (\<lambda>_ w. println_output_key (out_path h) why w))))"

definition outfile_installed ::
  "base64_ops \<Rightarrow> outfile_osk_handler \<Rightarrow> outfile_world \<Rightarrow> key option" where
  "outfile_installed B h w = (case files (out_fs w) (out_path h) of None \<Rightarrow> None
     | Some c \<Rightarrow> (case base64_to_key B c of Ok k \<Rightarrow> Some k | _ \<Rightarrow> None))"

section \<open>The WireGuard handler\<close>

datatype wg_peer_flag = UpdateOnly | RemoveMe | ReplaceAllowedIps

record set_peer =
  peer_public_key :: key
  peer_flags :: "wg_peer_flag list"
  preshared_key :: "key option"

definition set_peer_from_public_key :: "key \<Rightarrow> set_peer" where
  "set_peer_from_public_key k = \<lparr>peer_public_key = k, peer_flags = [], preshared_key = None\<rparr>"

record set_device_msg =
  ifname :: string
  msg_peers :: "set_peer list"

definition set_device_from_ifname :: "string \<Rightarrow> set_device_msg" where
  "set_device_from_ifname i = \<lparr>ifname = i, msg_peers = []\<rparr>"

text \<open>
  The control socket of \<open>wireguard_uapi\<close> over a kernel state \<open>'k\<close>:
  \<open>get_device\<close> lists the public keys of an interface's peers.
\<close>

record 'k wg_ops =
  wg_connect :: "'k \<Rightarrow> unit outcome"
  get_device :: "string \<Rightarrow> 'k \<Rightarrow> key list outcome"
  set_device :: "set_device_msg \<Rightarrow> 'k \<Rightarrow> unit outcome \<times> 'k"

record wireguard_osk_handler =
  wg_interface :: string
  wg_peer_id :: key

record 'k wg_world =
  wg_kernel :: 'k
  socket_poisoned :: bool

definition wireguard_setup ::
  "base64_ops \<Rightarrow> 'k wg_ops \<Rightarrow> string \<Rightarrow> string \<Rightarrow> 'k \<Rightarrow> wireguard_osk_handler outcome" where
  "wireguard_setup B W peer_id interface k =
     bind_outcome (unwrap_outcome ''Invalid peer_id'' (base64_to_key B (as_bytes peer_id))) (\<lambda>peer_id_u8.
     bind_outcome (context_outcome ''Failed to connect to WireGuard control socket.'' [] (wg_connect W k)) (\<lambda>_.
     bind_outcome (context_outcome ''Failed to access WireGuard interface {interface}'' [Str interface]
         (get_device W interface k)) (\<lambda>peers.
       if list_ex (\<lambda>p. p = peer_id_u8) peers
       then Ok \<lparr>wg_interface = interface, wg_peer_id = peer_id_u8\<rparr>
       else Err (Fmt ''Could not find WireGuard peer {peer_id}'' [Str peer_id]))))"

definition wireguard_set_osk :: "'k wg_ops \<Rightarrow> (wireguard_osk_handler, 'k wg_world) set_osk" where
  "wireguard_set_osk W h key reason w =
     (let peer = set_peer_from_public_key (wg_peer_id h);
          peer = peer\<lparr>peer_flags := peer_flags peer @ [UpdateOnly]\<rparr>;
          peer = peer\<lparr>preshared_key := Some key\<rparr>;
          dev = set_device_from_ifname (wg_interface h);
          dev = dev\<lparr>msg_peers := msg_peers dev @ [peer]\<rparr>
      in if socket_poisoned w then (Panic ''PoisonError'', w)
         else let (res, k) = set_device W dev (wg_kernel w) in (res, w\<lparr>wg_kernel := k\<rparr>))"

section \<open>Both handlers are sinks\<close>

lemma file_create_Ok:
  "file_create path fs = (Ok (), fs') \<Longrightarrow> files fs' = (files fs)(path := Some [])"
  by (auto simp: file_create_def split: option.splits)

lemma file_write_all_Ok:
  "file_write_all path bs fs = (Ok (), fs') \<Longrightarrow> files fs' = (files fs)(path := Some bs)"
  by (auto simp: file_write_all_def split: option.splits if_splits)

lemma outfile_set_osk_Ok:
  assumes "outfile_set_osk B h k r w = (Ok (), w')"
  obtains s where "b64_encode B k KEY_LENGTH_B64 = Inr s"
    and "files (out_fs w') = (files (out_fs w))(out_path h \<mapsto> s)"
    and "out_stdout w' = out_stdout w
           @ [(out_path h, case r of Fresh \<Rightarrow> ''exchanged'' | Stale \<Rightarrow> ''stale'')]"
proof -
  obtain s where s: "b64_encode B k KEY_LENGTH_B64 = Inr s"
    using assms by (auto simp: outfile_set_osk_def outcome_inv Let_def)
  obtain c fs1 where c: "file_create (out_path h) (out_fs w) = (c, fs1)" by fastforce
  obtain d fs2 where d: "file_write_all (out_path h) s fs1 = (d, fs2)" by fastforce
  have "c = Ok ()" "d = Ok ()" and w': "w' = w\<lparr>out_fs := fs2, out_stdout := out_stdout w
      @ [(out_path h, case r of Fresh \<Rightarrow> ''exchanged'' | Stale \<Rightarrow> ''stale'')]\<rparr>"
    using assms s c d
    by (auto simp: outfile_set_osk_def outcome_inv Let_def println_output_key_def split: if_splits)
  with c d have "files fs2 = (files (out_fs w))(out_path h \<mapsto> s)"
    by (simp add: file_create_Ok file_write_all_Ok)
  with that s w' show thesis by simp
qed

text \<open>The handler never reports an error: it succeeds or panics.\<close>

lemma outfile_set_osk_not_Err: "fst (outfile_set_osk B h k r w) \<noteq> Err e"
  by (auto simp: outfile_set_osk_def println_output_key_def Let_def outcome_inv
      split: prod.splits if_splits)

lemma outfile_set_osk_frame:
  "p \<noteq> out_path h \<Longrightarrow> files (out_fs (snd (outfile_set_osk B h k r w))) p = files (out_fs w) p"
  by (auto simp: outfile_set_osk_def println_output_key_def bind_st_def Let_def file_create_def
      file_write_all_def
      split: prod.splits outcome.splits option.splits)

sublocale base64ct \<subseteq> outfile: osk_sink "outfile_set_osk B" "outfile_installed B" "\<lambda>h w. True"
proof (unfold_locales, goal_cases)
  case (1 h w k r w')
  then show ?case
    by (elim outfile_set_osk_Ok) (simp add: outfile_installed_def base64_to_key_encode)
qed simp

text \<open>
  What the kernel promises for an update of one existing peer: its pre-shared key
  becomes the given one, the set of peers stays, and no other peer changes.
  An update-only message for a peer that does not exist is accepted without effect.
\<close>

locale wireguard_kernel =
  fixes W :: "'k wg_ops" and psk_of :: "'k \<Rightarrow> string \<Rightarrow> key \<Rightarrow> key option"
  assumes update_sets: "get_device W i s = Ok ps \<Longrightarrow> p \<in> set ps \<Longrightarrow>
      set_device W \<lparr>ifname = i, msg_peers = [\<lparr>peer_public_key = p, peer_flags = [UpdateOnly],
          preshared_key = Some k\<rparr>]\<rparr> s = (Ok (), s') \<Longrightarrow> psk_of s' i p = Some k"
    and update_frame: "set_device W \<lparr>ifname = i, msg_peers = [\<lparr>peer_public_key = p,
          peer_flags = [UpdateOnly], preshared_key = Some k\<rparr>]\<rparr> s = (r, s') \<Longrightarrow>
      (j, q) \<noteq> (i, p) \<Longrightarrow> psk_of s' j q = psk_of s j q"
    and update_peers: "set_device W \<lparr>ifname = i, msg_peers = [\<lparr>peer_public_key = p,
          peer_flags = [UpdateOnly], preshared_key = Some k\<rparr>]\<rparr> s = (r, s') \<Longrightarrow>
      get_device W j s' = get_device W j s"
    and update_missing: "get_device W i s = Ok ps \<Longrightarrow> p \<notin> set ps \<Longrightarrow>
      set_device W \<lparr>ifname = i, msg_peers = [\<lparr>peer_public_key = p, peer_flags = [UpdateOnly],
          preshared_key = Some k\<rparr>]\<rparr> s = (Ok (), s)"

text \<open>The handler's peer is still a peer of its interface.\<close>

definition wireguard_ready :: "'k wg_ops \<Rightarrow> wireguard_osk_handler \<Rightarrow> 'k wg_world \<Rightarrow> bool" where
  "wireguard_ready W h w = (case get_device W (wg_interface h) (wg_kernel w) of
     Ok ps \<Rightarrow> wg_peer_id h \<in> set ps | _ \<Rightarrow> False)"

lemma wireguard_set_osk_eq:
  "wireguard_set_osk W h k r w = (if socket_poisoned w then (Panic ''PoisonError'', w)
     else (let (res, s) = set_device W \<lparr>ifname = wg_interface h, msg_peers =
              [\<lparr>peer_public_key = wg_peer_id h, peer_flags = [UpdateOnly], preshared_key = Some k\<rparr>]\<rparr>
              (wg_kernel w) in (res, w\<lparr>wg_kernel := s\<rparr>)))"
  by (simp add: wireguard_set_osk_def set_peer_from_public_key_def set_device_from_ifname_def Let_def)

lemma wireguard_set_osk_cases:
  assumes "wireguard_set_osk W h k r w = (Ok (), w')"
  obtains s where "set_device W \<lparr>ifname = wg_interface h, msg_peers = [\<lparr>peer_public_key = wg_peer_id h,
        peer_flags = [UpdateOnly], preshared_key = Some k\<rparr>]\<rparr> (wg_kernel w) = (Ok (), s)"
    and "w' = w\<lparr>wg_kernel := s\<rparr>"
  using assms by (auto simp: wireguard_set_osk_eq Let_def split: if_splits prod.splits)

sublocale wireguard_kernel \<subseteq> wg: osk_sink "wireguard_set_osk W"
    "\<lambda>h w. psk_of (wg_kernel w) (wg_interface h) (wg_peer_id h)" "wireguard_ready W"
proof (unfold_locales, goal_cases)
  case (1 h w k r w')
  then show ?case
    by (elim wireguard_set_osk_cases)
      (auto simp: wireguard_ready_def dest: update_sets split: outcome.splits)
next
  case (2 h w k r w')
  then show ?case
    by (elim wireguard_set_osk_cases) (auto simp: wireguard_ready_def update_peers)
qed

context wireguard_kernel
begin

lemma set_osk_updates_peer:
  assumes "is_key k" "wireguard_ready W h w" "wireguard_set_osk W h k r w = (Ok (), w')"
  shows "psk_of (wg_kernel w') (wg_interface h) (wg_peer_id h) = Some k"
    and "wireguard_ready W h w'"
    and "(i, p) \<noteq> (wg_interface h, wg_peer_id h) \<Longrightarrow>
         psk_of (wg_kernel w') i p = psk_of (wg_kernel w) i p"
  using assms wg.set_installs wg.set_ready
  by (auto elim!: wireguard_set_osk_cases dest: update_frame)

lemma set_osk_missing_peer:
  assumes "get_device W (wg_interface h) (wg_kernel w) = Ok ps" "wg_peer_id h \<notin> set ps"
    and "\<not> socket_poisoned w"
  shows "wireguard_set_osk W h k r w = (Ok (), w)"
  using update_missing [OF assms(1,2)] assms(3) by (simp add: wireguard_set_osk_eq)

end

section \<open>A kernel that keeps its promises\<close>

text \<open>Interfaces with their peers and pre-shared keys, in the order of configuration.\<close>

type_synonym ref_kernel = "string \<Rightarrow> (key \<times> key) list option"

definition apply_peer :: "set_peer \<Rightarrow> (key \<times> key) list \<Rightarrow> (key \<times> key) list" where
  "apply_peer p ds =
     (if peer_public_key p \<in> fst ` set ds
      then map (\<lambda>(q, k). (q, if q = peer_public_key p
              then (case preshared_key p of None \<Rightarrow> k | Some k' \<Rightarrow> k') else k)) ds
      else if UpdateOnly \<in> set (peer_flags p) then ds
      else ds @ [(peer_public_key p, case preshared_key p of None \<Rightarrow> key_new_zeroed | Some k \<Rightarrow> k)])"

definition ref_wg :: "ref_kernel wg_ops" where
  "ref_wg = \<lparr>wg_connect = (\<lambda>s. Ok ()),
     get_device = (\<lambda>i s. case s i of None \<Rightarrow> Err (Foreign 1) | Some ds \<Rightarrow> Ok (map fst ds)),
     set_device = (\<lambda>m s. case s (ifname m) of None \<Rightarrow> (Err (Foreign 1), s)
        | Some ds \<Rightarrow> (Ok (), s(ifname m \<mapsto> fold apply_peer (msg_peers m) ds)))\<rparr>"

definition ref_psk :: "ref_kernel \<Rightarrow> string \<Rightarrow> key \<Rightarrow> key option" where
  "ref_psk s i p = (case s i of None \<Rightarrow> None | Some ds \<Rightarrow> map_of ds p)"

lemma map_of_update_same:
  "p \<in> fst ` set ds \<Longrightarrow> map_of (map (\<lambda>(q, k). (q, if q = p then k' else k)) ds) p = Some k'"
  by (induction ds) auto

lemma map_of_update_other:
  "q \<noteq> p \<Longrightarrow> map_of (map (\<lambda>(q, k). (q, if q = p then k' else k)) ds) q = map_of ds q"
  by (induction ds) auto

lemma map_of_apply_peer:
  "map_of (apply_peer \<lparr>peer_public_key = p, peer_flags = [UpdateOnly], preshared_key = Some k\<rparr> ds) q
     = (if q = p \<and> p \<in> fst ` set ds then Some k else map_of ds q)"
  by (simp add: apply_peer_def map_of_update_same map_of_update_other cong: if_cong)

lemma map_fst_apply_peer:
  "map fst (apply_peer \<lparr>peer_public_key = p, peer_flags = [UpdateOnly], preshared_key = Some k\<rparr> ds)
     = map fst ds"
  by (auto simp: apply_peer_def)

lemma apply_peer_missing:
  "p \<notin> fst ` set ds \<Longrightarrow>
   apply_peer \<lparr>peer_public_key = p, peer_flags = [UpdateOnly], preshared_key = k\<rparr> ds = ds"
  by (simp add: apply_peer_def)

interpretation refwg: wireguard_kernel ref_wg ref_psk
proof (unfold_locales, goal_cases)
  case (1 i s ps p k s')
  then obtain ds where "s i = Some ds" "ps = map fst ds"
    by (auto simp: ref_wg_def split: option.splits)
  moreover from this 1 have "s' = s(i \<mapsto> apply_peer \<lparr>peer_public_key = p,
      peer_flags = [UpdateOnly], preshared_key = Some k\<rparr> ds)"
    by (simp add: ref_wg_def)
  ultimately show ?case using 1(2) by (simp add: ref_psk_def map_of_apply_peer)
next
  case (2 i p k s r s' j q)
  then show ?case
    by (auto simp: ref_wg_def ref_psk_def map_of_apply_peer split: option.splits if_splits)
next
  case (3 i p k s r s' j)
  then show ?case
    by (auto simp: ref_wg_def map_fst_apply_peer split: option.splits if_splits)
next
  case (4 i s ps p k)
  then show ?case
    by (auto simp: ref_wg_def apply_peer_missing fun_upd_idem split: option.splits)
qed

section \<open>Properties\<close>

text \<open>
  C29: a key the file handler has written is read back unchanged by the key file
  loader, whatever the reason it was set for; no other file is touched.
\<close>

theorem outfile_load_roundtrip:
  assumes "base64ct B" and "is_key k" and "outfile_set_osk B h k r w = (Ok (), w')"
    and "reads_healthy (out_fs w') (out_path h)"
  shows "load_base64_key_file B (out_fs w') (out_path h) = Some (Ok k)
    \<and> (\<forall>p. p \<noteq> out_path h \<longrightarrow> files (out_fs w') p = files (out_fs w) p)"
proof -
  obtain s where "b64_encode B k KEY_LENGTH_B64 = Inr s"
    and "files (out_fs w') = (files (out_fs w))(out_path h \<mapsto> s)"
    using assms(3) by (rule outfile_set_osk_Ok)
  then show ?thesis
    using base64ct.load_encoded_key [OF assms(1,4,2)] by simp
qed

definition example_out_world :: outfile_world where
  "example_out_world = \<lparr>out_fs = example_fs [] [], out_stdout = [], stdout_fails = False\<rparr>"

lemma outfile_set_osk_rfc:
  assumes "is_key k" "create_error (out_fs w) (out_path h) = None"
    "write_quota (out_fs w) (out_path h) = None" "\<not> stdout_fails w"
  shows "outfile_set_osk rfc4648 h k r w = (Ok (), w\<lparr>
      out_fs := (out_fs w)\<lparr>files := (files (out_fs w))(out_path h \<mapsto> rfc_encode k)\<rparr>,
      out_stdout := out_stdout w
        @ [(out_path h, case r of Fresh \<Rightarrow> ''exchanged'' | Stale \<Rightarrow> ''stale'')]\<rparr>)"
  using assms by (simp add: outfile_set_osk_def rfc4648_def length_rfc_encode padded_len_def
      is_key_def KEY_LENGTH_def KEY_LENGTH_B64_eq file_create_def file_write_all_def
      println_output_key_def)

text \<open>
  The file handler takes every key while its file can be created and written and the
  standard output takes the line about it.
\<close>

definition outfile_writable :: "outfile_osk_handler \<Rightarrow> outfile_world \<Rightarrow> bool" where
  "outfile_writable h w \<longleftrightarrow> create_error (out_fs w) (out_path h) = None
     \<and> write_quota (out_fs w) (out_path h) = None \<and> \<not> stdout_fails w"

interpretation out_rfc: reliable_sink "outfile_set_osk rfc4648" "outfile_installed rfc4648" outfile_writable
proof (unfold_locales, goal_cases)
  case (1 h w k r w')
  then show ?case using rfc.outfile.set_installs by blast
next
  case (2 h w k r w')
  then show ?case by (auto simp: outfile_writable_def outfile_set_osk_rfc)
next
  case (3 h w k r)
  then show ?case by (simp add: outfile_writable_def outfile_set_osk_rfc)
qed

lemma example_out_writable [simp]: "outfile_writable h example_out_world"
  by (simp add: outfile_writable_def example_out_world_def example_fs_def)

lemma outfile_example:
  "outfile_set_osk rfc4648 (outfile_osk_handler_new p) (replicate 32 7) r example_out_world
     = (Ok (), \<lparr>out_fs = (example_fs [] [])\<lparr>files := (files (example_fs [] []))(p \<mapsto> rfc_encode (replicate 32 7))\<rparr>,
         out_stdout = [(p, case r of Fresh \<Rightarrow> ''exchanged'' | Stale \<Rightarrow> ''stale'')],
         stdout_fails = False\<rparr>)"
  by (subst outfile_set_osk_rfc) (simp_all add: outfile_osk_handler_new_def example_out_world_def
      is_key_def KEY_LENGTH_def)

theorem outfile_load_roundtrip_witness:
  "load_base64_key_file rfc4648 (out_fs (snd (outfile_set_osk rfc4648 (outfile_osk_handler_new ''out'')
      (replicate 32 7) Fresh example_out_world))) ''out'' = Some (Ok (replicate 32 7))"
  using outfile_load_roundtrip [OF rfc.base64ct_axioms _ outfile_example [of "''out''" Fresh]]
  unfolding outfile_example
  by (simp add: outfile_osk_handler_new_def is_key_def KEY_LENGTH_def)

lemma wireguard_setup_Ok:
  assumes "wireguard_setup B W peer_id iface (wg_kernel w) = Ok h"
  shows "base64_to_key B (as_bytes peer_id) = Ok (wg_peer_id h)" and "wg_interface h = iface"
    and "wireguard_ready W h w"
  using assms by (auto simp: wireguard_setup_def wireguard_ready_def list_ex_iff split: if_splits)

text \<open>
  The handler's calls as time goes by. Before each call the kernel's state may be
  changed by other programs (\<open>env\<close>); \<open>None\<close> when a call fails.
\<close>

fun wireguard_calls :: "'k wg_ops \<Rightarrow> wireguard_osk_handler
     \<Rightarrow> (('k \<Rightarrow> 'k) \<times> key \<times> set_osk_reason) list \<Rightarrow> 'k wg_world \<Rightarrow> 'k wg_world option" where
  "wireguard_calls W h [] w = Some w"
| "wireguard_calls W h ((env, k, r) # calls) w =
     (case wireguard_set_osk W h k r (w\<lparr>wg_kernel := env (wg_kernel w)\<rparr>) of
        (Ok _, w') \<Rightarrow> wireguard_calls W h calls w'
      | _ \<Rightarrow> None)"

text \<open>What the other programs do leaves the handler's peer on its interface.\<close>

definition keeps_peer :: "'k wg_ops \<Rightarrow> wireguard_osk_handler \<Rightarrow> ('k \<Rightarrow> 'k) \<Rightarrow> bool" where
  "keeps_peer W h env \<longleftrightarrow> (\<forall>w. wireguard_ready W h w \<longrightarrow> wireguard_ready W h (w\<lparr>wg_kernel := env (wg_kernel w)\<rparr>))"

context wireguard_kernel
begin

lemma calls_install:
  assumes "wireguard_calls W h calls w = Some w'" "wireguard_ready W h w"
    and "\<forall>(env, k, r) \<in> set calls. keeps_peer W h env \<and> is_key k"
  shows "wireguard_ready W h w'
    \<and> (calls \<noteq> [] \<longrightarrow> psk_of (wg_kernel w') (wg_interface h) (wg_peer_id h) = Some (fst (snd (last calls))))
    \<and> (\<forall>i p. (i, p) \<noteq> (wg_interface h, wg_peer_id h)
         \<and> (\<forall>(env, k, r) \<in> set calls. \<forall>s. psk_of (env s) i p = psk_of s i p) \<longrightarrow>
         psk_of (wg_kernel w') i p = psk_of (wg_kernel w) i p)"
  using assms
proof (induction calls arbitrary: w)
  case (Cons c calls)
  obtain env k r where c: "c = (env, k, r)" by (cases c)
  let ?w = "w\<lparr>wg_kernel := env (wg_kernel w)\<rparr>"
  obtain w1 where w1: "wireguard_set_osk W h k r ?w = (Ok (), w1)"
    "wireguard_calls W h calls w1 = Some w'"
    using Cons.prems(1) c by (auto split: prod.splits outcome.splits)
  have "is_key k" "wireguard_ready W h ?w" using Cons.prems c by (auto simp: keeps_peer_def)
  note first = set_osk_updates_peer [OF this w1(1)]
  have rest: "\<forall>(env, k, r) \<in> set calls. keeps_peer W h env \<and> is_key k" using Cons.prems(3) by simp
  note IH = Cons.IH [OF w1(2) first(2) rest]
  have "psk_of (wg_kernel w') i p = psk_of (wg_kernel w) i p"
    if "(i, p) \<noteq> (wg_interface h, wg_peer_id h)"
      "\<forall>(env, k, r) \<in> set (c # calls). \<forall>s. psk_of (env s) i p = psk_of s i p" for i p
    using IH first(3) [OF that(1)] that c by (simp add: split_beta)
  moreover have "psk_of (wg_kernel w') (wg_interface h) (wg_peer_id h) = Some (fst (snd (last (c # calls))))"
    using IH first(1) w1(2) c by (cases "calls = []") auto
  ultimately show ?case using IH by blast
qed simp

end

text \<open>
  C28: a WireGuard handler that was set up for a peer and an interface installs its
  keys there. Any number of calls may follow the set-up, and before each of them
  other programs may change the kernel's configuration in any way that leaves the
  handler's peer on its interface. When all the calls succeed, the peer of the
  configured identity has the key of the last call as its pre-shared key, and a peer
  or interface whose pre-shared key the other programs leave alone has the one it
  had before the first call. (When the peer is removed from the interface, calls
  still succeed, without any effect.)
\<close>

theorem wireguard_set_osk_installs:
  assumes "wireguard_kernel W psk_of" and "wireguard_setup B W peer_id iface (wg_kernel w) = Ok h"
    and "\<forall>(env, k, r) \<in> set calls. keeps_peer W h env \<and> is_key k"
    and "wireguard_calls W h calls w = Some w'" and "calls \<noteq> []"
  shows "base64_to_key B (as_bytes peer_id) = Ok (wg_peer_id h) \<and> wg_interface h = iface
    \<and> psk_of (wg_kernel w') iface (wg_peer_id h) = Some (fst (snd (last calls)))
    \<and> (\<forall>i p. (i, p) \<noteq> (iface, wg_peer_id h)
          \<and> (\<forall>(env, k, r) \<in> set calls. \<forall>s. psk_of (env s) i p = psk_of s i p) \<longrightarrow>
          psk_of (wg_kernel w') i p = psk_of (wg_kernel w) i p)"
proof -
  note h = wireguard_setup_Ok [OF assms(2)]
  note installs = wireguard_kernel.calls_install [OF assms(1,4) h(3) assms(3)]
  with assms(5) h(1,2) show ?thesis by blast
qed

definition example_wg_world :: "ref_kernel wg_world" where
  "example_wg_world = \<lparr>wg_kernel = [''wg0'' \<mapsto> [(replicate 32 1, key_new_zeroed),
     (replicate 32 2, key_new_zeroed)]], socket_poisoned = False\<rparr>"

definition example_wg_handler :: "key \<Rightarrow> wireguard_osk_handler" where
  "example_wg_handler p = \<lparr>wg_interface = ''wg0'', wg_peer_id = p\<rparr>"

theorem wireguard_set_osk_installs_witness:
  "\<exists>h w'. wireguard_setup rfc4648 ref_wg (string_of_bytes (rfc_encode (replicate 32 2))) ''wg0''
          (wg_kernel example_wg_world) = Ok h
      \<and> wireguard_calls ref_wg h [(id, replicate 32 7, Fresh), (\<lambda>s. s(''wg1'' \<mapsto> []), replicate 32 8, Stale)]
          example_wg_world = Some w'
      \<and> ref_psk (wg_kernel w') ''wg0'' (replicate 32 2) = Some (replicate 32 8)
      \<and> ref_psk (wg_kernel w') ''wg0'' (replicate 32 1) = Some key_new_zeroed"
proof -
  let ?h = "example_wg_handler (replicate 32 2)"
  let ?calls = "[(id, replicate 32 7, Fresh), (\<lambda>s. s(''wg1'' \<mapsto> []), replicate 32 8, Stale)]
      :: ((ref_kernel \<Rightarrow> ref_kernel) \<times> key \<times> set_osk_reason) list"
  have "b64_encode rfc4648 (replicate 32 2) 100 = Inr (rfc_encode (replicate 32 2))"
    by (simp add: rfc4648_def padded_len_def length_rfc_encode)
  then have dec: "base64_to_key rfc4648 (rfc_encode (replicate 32 2)) = Ok (replicate 32 2)"
    by (intro rfc.base64_to_key_encode [where cap = 100]) (simp_all add: is_key_def KEY_LENGTH_def)
  have st: "wireguard_setup rfc4648 ref_wg (string_of_bytes (rfc_encode (replicate 32 2))) ''wg0''
      (wg_kernel example_wg_world) = Ok ?h"
    using dec by (simp add: wireguard_setup_def ref_wg_def example_wg_world_def example_wg_handler_def)
  obtain w' where w': "wireguard_calls ref_wg ?h ?calls example_wg_world = Some w'"
    by (simp add: wireguard_set_osk_eq ref_wg_def example_wg_world_def example_wg_handler_def)
  have kept: "\<forall>(env, k, r) \<in> set ?calls. keeps_peer ref_wg ?h env \<and> is_key k"
    by (simp add: keeps_peer_def wireguard_ready_def ref_wg_def example_wg_handler_def is_key_def
        KEY_LENGTH_def)
  note installed = wireguard_set_osk_installs [OF refwg.wireguard_kernel_axioms st kept w']
  have "ref_psk (wg_kernel w') ''wg0'' (replicate 32 1) = ref_psk (wg_kernel example_wg_world) ''wg0'' (replicate 32 1)"
    using installed by (simp add: example_wg_handler_def ref_psk_def)
  with installed st w' show ?thesis
    by (auto simp: ref_psk_def example_wg_world_def example_wg_handler_def)
qed

end
