(* ===== verification/Protocol.thy ===== *)
theory Protocol
  imports Etsi014 Osk "HOL-Library.Sublist"
begin

text \<open>
  \<open>crypto/server.rs\<close> and \<open>crypto/client.rs\<close>: the two sides of the key
  negotiation on one stream. The stream is a parameter (the operations
  \<open>read_exact\<close> and \<open>write_all\<close> of \<open>tokio::io\<close>), and so are the crates
  the key derivation and the key server client use. A negotiation is cut where it
  waits for the other side, so that the second half of the theory can run both
  sides of a session against each other in every interleaving.
\<close>

section \<open>What a side works on\<close>

record 's stream_ops =
  read_exact :: "nat \<Rightarrow> 's \<Rightarrow> byte list outcome \<times> 's"
  write_all :: "byte list \<Rightarrow> 's \<Rightarrow> unit outcome \<times> 's"

record 's crates =
  b64 :: base64_ops
  uuids :: uuid_ops
  shake :: xof
  io :: "'s stream_ops"

text \<open>The stream, the key server, the target of the output key, the time slept.\<close>

record ('s, 'e, 'w) party_world =
  stream_of :: 's
  etsi_of :: 'e
  osk_of :: 'w
  elapsed :: nat

definition on_stream ::
  "('s \<Rightarrow> 'a outcome \<times> 's) \<Rightarrow> ('s, 'e, 'w) party_world \<Rightarrow> 'a outcome \<times> ('s, 'e, 'w) party_world" where
  "on_stream f w = (let (r, s) = f (stream_of w) in (r, w\<lparr>stream_of := s\<rparr>))"

definition on_etsi ::
  "('e \<Rightarrow> 'a outcome \<times> 'e) \<Rightarrow> ('s, 'e, 'w) party_world \<Rightarrow> 'a outcome \<times> ('s, 'e, 'w) party_world" where
  "on_etsi f w = (let (r, e) = f (etsi_of w) in (r, w\<lparr>etsi_of := e\<rparr>))"

definition on_osk ::
  "('w \<Rightarrow> 'a outcome \<times> 'w) \<Rightarrow> ('s, 'e, 'w) party_world \<Rightarrow> 'a outcome \<times> ('s, 'e, 'w) party_world" where
  "on_osk f w = (let (r, k) = f (osk_of w) in (r, w\<lparr>osk_of := k\<rparr>))"

definition sleep :: "u64 \<Rightarrow> ('s, 'e, 'w) party_world \<Rightarrow> ('s, 'e, 'w) party_world" where
  "sleep secs w = w\<lparr>elapsed := elapsed w + unat secs\<rparr>"

section \<open>The server side\<close>

record ('h, 'e) daisyway_server_protocol =
  srv_params :: daisyway_protocol_parameters
  srv_etsi_client :: "'e etsi014_connection"
  srv_osk_handler :: 'h
  srv_rekey_interval :: u64

definition daisyway_server_protocol_new ::
  "daisyway_protocol_parameters \<Rightarrow> 'e etsi014_connection \<Rightarrow> 'h \<Rightarrow> u64
     \<Rightarrow> ('h, 'e) daisyway_server_protocol" where
  "daisyway_server_protocol_new params etsi_client osk_handler rekey_interval =
     \<lparr>srv_params = params, srv_etsi_client = etsi_client, srv_osk_handler = osk_handler,
      srv_rekey_interval = rekey_interval\<rparr>"

text \<open>
  \<open>negotiate_key\<close> up to the point where it waits for the acknowledgement, with
  the random nonce drawn by the environment, and from there on.
\<close>

definition negotiate_request ::
  "'s crates \<Rightarrow> ('h, 'e) daisyway_server_protocol \<Rightarrow> nonce \<Rightarrow> ('s, 'e, 'w) party_world
     \<Rightarrow> (etsi014_key \<times> nonce) outcome \<times> ('s, 'e, 'w) party_world" where
  "negotiate_request C srv random_nonce w =
     bind_st (context_st ''Failed to fetch a QKD key.'' []
                (on_etsi (fetch_any_key (b64 C) (srv_etsi_client srv)) w)) (\<lambda>key w.
       (let rekey_req = rekey_req_new random_nonce (key_id key) in
        bind_st (context_st ''Could not send QKD key and nonce to server'' []
                   (on_stream (write_all (io C) (rekey_req_as_bytes rekey_req)) w)) (\<lambda>_ w.
          (Ok (key, req_nonce rekey_req), w))))"

definition negotiate_ack ::
  "'s crates \<Rightarrow> ('h, 'e) daisyway_server_protocol \<Rightarrow> etsi014_key \<times> nonce \<Rightarrow> ('s, 'e, 'w) party_world
     \<Rightarrow> key outcome \<times> ('s, 'e, 'w) party_world" where
  "negotiate_ack C srv kn w =
     bind_st (context_st ''Failed to receive rekey acknowledgement message'' []
                (bind_st (on_stream (read_exact (io C) REKEY_ACK_LENGTH) w) (\<lambda>ack w.
                   (rekey_ack_validate (rekey_ack_of_bytes ack), w)))) (\<lambda>_ w.
       (Ok (derive_daisyway_key (uuids C) (shake C) (srv_params srv) (snd kn) (fst kn)), w))"

definition negotiate_key ::
  "'s crates \<Rightarrow> ('h, 'e) daisyway_server_protocol \<Rightarrow> nonce \<Rightarrow> ('s, 'e, 'w) party_world
     \<Rightarrow> key outcome \<times> ('s, 'e, 'w) party_world" where
  "negotiate_key C srv random_nonce w =
     bind_st (negotiate_request C srv random_nonce w) (negotiate_ack C srv)"

definition server_round ::
  "('h, 'w) set_osk \<Rightarrow> 's crates \<Rightarrow> ('h, 'e) daisyway_server_protocol \<Rightarrow> nonce
     \<Rightarrow> ('s, 'e, 'w) party_world \<Rightarrow> unit outcome \<times> ('s, 'e, 'w) party_world" where
  "server_round set_osk C srv random_nonce w =
     bind_st (negotiate_key C srv random_nonce w) (\<lambda>key w.
       bind_st (on_osk (set_fresh_osk set_osk (srv_osk_handler srv) key) w) (\<lambda>_ w.
         (Ok (), sleep (srv_rekey_interval srv) w)))"

text \<open>The loop for as many rounds as nonces are given; it only leaves with an error.\<close>

fun server_event_loop ::
  "('h, 'w) set_osk \<Rightarrow> 's crates \<Rightarrow> ('h, 'e) daisyway_server_protocol \<Rightarrow> nonce list
     \<Rightarrow> ('s, 'e, 'w) party_world \<Rightarrow> (unit outcome, ('s, 'e, 'w) party_world) loop_state" where
  "server_event_loop set_osk C srv [] w = Running w"
| "server_event_loop set_osk C srv (n # ns) w = (case server_round set_osk C srv n w of
       (Ok _, w') \<Rightarrow> server_event_loop set_osk C srv ns w'
     | (r, w') \<Rightarrow> Returned r w')"

section \<open>The client side\<close>

record ('h, 'e) daisyway_client_protocol =
  cl_params :: daisyway_protocol_parameters
  cl_etsi_client :: "'e etsi014_connection"
  cl_osk_handler :: 'h

definition daisyway_client_protocol_new ::
  "daisyway_protocol_parameters \<Rightarrow> 'e etsi014_connection \<Rightarrow> 'h \<Rightarrow> ('h, 'e) daisyway_client_protocol" where
  "daisyway_client_protocol_new params etsi_client osk_handler =
     \<lparr>cl_params = params, cl_etsi_client = etsi_client, cl_osk_handler = osk_handler\<rparr>"

definition wait_for_key_negotiation ::
  "'s crates \<Rightarrow> ('h, 'e) daisyway_client_protocol \<Rightarrow> ('s, 'e, 'w) party_world
     \<Rightarrow> key outcome \<times> ('s, 'e, 'w) party_world" where
  "wait_for_key_negotiation C cl w =
     bind_st (context_st ''Failed to read rekey request message'' []
                (on_stream (read_exact (io C) REKEY_REQ_LENGTH) w)) (\<lambda>bytes w.
       (let rekey_req = rekey_req_of_bytes bytes; n = req_nonce rekey_req in
        bind_st (context_st ''Failed to fetch key from QKD device'' []
                   (on_etsi (fetch_specific_key (b64 C) (uuids C) (cl_etsi_client cl)
                      (req_qkd_key_id rekey_req)) w)) (\<lambda>key w.
          bind_st (context_st ''Failed to send rekey acknowledgement message'' []
                     (on_stream (write_all (io C) (rekey_ack_as_bytes REKEY_ACK)) w)) (\<lambda>_ w.
            (Ok (derive_daisyway_key (uuids C) (shake C) (cl_params cl) n key), w)))))"

definition client_round ::
  "('h, 'w) set_osk \<Rightarrow> 's crates \<Rightarrow> ('h, 'e) daisyway_client_protocol
     \<Rightarrow> ('s, 'e, 'w) party_world \<Rightarrow> unit outcome \<times> ('s, 'e, 'w) party_world" where
  "client_round set_osk C cl w =
     bind_st (wait_for_key_negotiation C cl w) (\<lambda>key w.
       on_osk (set_fresh_osk set_osk (cl_osk_handler cl) key) w)"

fun client_event_loop ::
  "('h, 'w) set_osk \<Rightarrow> 's crates \<Rightarrow> ('h, 'e) daisyway_client_protocol \<Rightarrow> nat
     \<Rightarrow> ('s, 'e, 'w) party_world \<Rightarrow> (unit outcome, ('s, 'e, 'w) party_world) loop_state" where
  "client_event_loop set_osk C cl 0 w = Running w"
| "client_event_loop set_osk C cl (Suc rounds) w = (case client_round set_osk C cl w of
       (Ok _, w') \<Rightarrow> client_event_loop set_osk C cl rounds w'
     | (r, w') \<Rightarrow> Returned r w')"

section \<open>Lemmas\<close>

lemma on_simps [simp]:
  "on_stream f w = (fst (f (stream_of w)), w\<lparr>stream_of := snd (f (stream_of w))\<rparr>)"
  "on_etsi g w = (fst (g (etsi_of w)), w\<lparr>etsi_of := snd (g (etsi_of w))\<rparr>)"
  "on_osk h w = (fst (h (osk_of w)), w\<lparr>osk_of := snd (h (osk_of w))\<rparr>)"
  by (simp_all add: on_stream_def on_etsi_def on_osk_def split_beta Let_def)

text \<open>The output key that belongs to a QKD key and a nonce the server has offered.\<close>

definition offered_key ::
  "'s crates \<Rightarrow> ('h, 'e) daisyway_server_protocol \<Rightarrow> etsi014_key \<times> nonce \<Rightarrow> key" where
  "offered_key C srv kn = derive_daisyway_key (uuids C) (shake C) (srv_params srv) (snd kn) (fst kn)"

lemma negotiate_request_osk:
  "negotiate_request C srv n w = (r, w') \<Longrightarrow> osk_of w' = osk_of w"
  by (auto simp: negotiate_request_def bind_st_def Let_def split: prod.splits outcome.splits)

lemma negotiate_request_nonce:
  "negotiate_request C srv n w = (Ok kn, w') \<Longrightarrow> snd kn = n"
  by (auto simp: negotiate_request_def outcome_inv Let_def rekey_req_new_def)

lemma negotiate_ack_osk:
  "negotiate_ack C srv kn w = (r, w') \<Longrightarrow>
     osk_of w' = osk_of w \<and> (\<forall>k. r = Ok k \<longrightarrow> k = offered_key C srv kn)"
  by (auto simp: negotiate_ack_def bind_st_def offered_key_def split: prod.splits outcome.splits)

lemma wait_for_key_negotiation_osk:
  "wait_for_key_negotiation C cl w = (r, w') \<Longrightarrow>
     osk_of w' = osk_of w
     \<and> (\<forall>k. r = Ok k \<longrightarrow> (\<exists>n q. k = derive_daisyway_key (uuids C) (shake C) (cl_params cl) n q))"
  by (auto simp: wait_for_key_negotiation_def bind_st_def Let_def split: prod.splits outcome.splits)

lemma server_event_loop_only_fails:
  "server_event_loop ss C srv ns w = Returned r w' \<Longrightarrow> \<not> is_Ok r"
  by (induction ns arbitrary: w) (auto split: prod.splits outcome.splits)

lemma client_event_loop_only_fails:
  "client_event_loop cs C cl m w = Returned r w' \<Longrightarrow> \<not> is_Ok r"
  by (induction m arbitrary: w) (auto split: prod.splits outcome.splits)

lemma server_round_Ok:
  "server_round ss C srv n w = (Ok (), w') \<longleftrightarrow>
     (\<exists>k w1 v. negotiate_key C srv n w = (Ok k, w1)
        \<and> ss (srv_osk_handler srv) k Fresh (osk_of w1) = (Ok (), v)
        \<and> w' = sleep (srv_rekey_interval srv) (w1\<lparr>osk_of := v\<rparr>))"
  by (auto simp: server_round_def set_fresh_osk_def outcome_inv) (metis prod.collapse)

lemma negotiate_key_osk:
  assumes "negotiate_key C srv n w = (r, w')"
  shows "osk_of w' = osk_of w" and "r = Ok k \<Longrightarrow> \<exists>q. k = offered_key C srv (q, n)"
proof -
  show "osk_of w' = osk_of w"
    using assms by (auto simp: negotiate_key_def bind_st_def split: prod.splits outcome.splits
        dest!: negotiate_request_osk negotiate_ack_osk)
  assume "r = Ok k"
  with assms obtain kn w1 where "negotiate_request C srv n w = (Ok kn, w1)" "negotiate_ack C srv kn w1 = (Ok k, w')"
    by (auto simp: negotiate_key_def outcome_inv)
  with negotiate_request_nonce negotiate_ack_osk have "snd kn = n" "k = offered_key C srv kn" by blast+
  then show "\<exists>q. k = offered_key C srv (q, n)" by (metis prod.collapse)
qed

lemma negotiate_request_elapsed:
  "negotiate_request C srv n w = (r, w') \<Longrightarrow> elapsed w' = elapsed w"
  by (auto simp: negotiate_request_def bind_st_def Let_def split: prod.splits outcome.splits)

lemma negotiate_key_elapsed:
  "negotiate_key C srv n w = (r, w') \<Longrightarrow> elapsed w' = elapsed w"
  by (auto simp: negotiate_key_def negotiate_ack_def bind_st_def split: prod.splits outcome.splits
      dest!: negotiate_request_elapsed)

section \<open>Properties\<close>

text \<open>A key server that always answers with one key, and a stream that always acknowledges alike.\<close>

definition example_response :: response_key where
  "example_response = \<lparr>response_id = uuid_nil, response_text = string_of_bytes (rfc_encode (replicate 32 7))\<rparr>"

definition ack_crates :: "byte \<Rightarrow> unit crates" where
  "ack_crates b = \<lparr>b64 = rfc4648, uuids = std_uuid, shake = fips202_shake256,
     io = \<lparr>read_exact = (\<lambda>n s. (Ok (replicate n b), s)), write_all = (\<lambda>bs s. (Ok (), s))\<rparr>\<rparr>"

definition example_server :: "(outfile_osk_handler, unit) daisyway_server_protocol" where
  "example_server = daisyway_server_protocol_new example_params (const_connection [example_response])
     (outfile_osk_handler_new ''out'') 120"

definition example_world :: "(unit, unit, outfile_world) party_world" where
  "example_world = \<lparr>stream_of = (), etsi_of = (), osk_of = example_out_world, elapsed = 0\<rparr>"

lemma example_fetch_any: "fetch_any_key rfc4648 (const_connection [example_response]) w
    = (Ok \<lparr>key_id = uuid_nil, key_bytes = replicate 32 7\<rparr>, w)"
proof -
  have "b64_decode rfc4648 (rfc_encode (replicate 32 7)) KEY_LENGTH = Inr (replicate 32 7)"
    by (simp add: rfc4648_def rfc_decode_encode KEY_LENGTH_def)
  then have "try_from_response_key rfc4648 example_response = Ok \<lparr>key_id = uuid_nil, key_bytes = replicate 32 7\<rparr>"
    by (simp add: rfc.try_from_response_key_Ok example_response_def)
  then show ?thesis
    by (simp add: fetch_any_key_Ok fetch_key_internal_Ok const_connection_def etsi014_connection_new_def
        is_success_def)
qed

lemma example_fetch_specific: "fetch_specific_key rfc4648 std_uuid (const_connection [example_response]) i w
    = (Ok \<lparr>key_id = uuid_nil, key_bytes = replicate 32 7\<rparr>, w)"
proof -
  have "b64_decode rfc4648 (rfc_encode (replicate 32 7)) KEY_LENGTH = Inr (replicate 32 7)"
    by (simp add: rfc4648_def rfc_decode_encode KEY_LENGTH_def)
  then have "try_from_response_key rfc4648 example_response = Ok \<lparr>key_id = uuid_nil, key_bytes = replicate 32 7\<rparr>"
    by (simp add: rfc.try_from_response_key_Ok example_response_def)
  then show ?thesis
    by (simp add: fetch_specific_key_Ok fetch_key_internal_Ok const_connection_def etsi014_connection_new_def
        is_success_def)
qed

lemma example_request: "negotiate_request (ack_crates b) example_server n example_world
    = (Ok (\<lparr>key_id = uuid_nil, key_bytes = replicate 32 7\<rparr>, n), example_world)"
  by (simp add: negotiate_request_def example_server_def daisyway_server_protocol_new_def ack_crates_def
      example_fetch_any example_world_def rekey_req_new_def)

text \<open>
  C22: an answer other than the acknowledgement ends the negotiation with an error
  before any key is installed: the target of the output key is as before.
\<close>

theorem server_rejects_bad_ack:
  assumes "negotiate_request C srv n w = (Ok kn, w1)"
    and "read_exact (io C) REKEY_ACK_LENGTH (stream_of w1) = (Ok [b], s)" and "b \<noteq> 1"
  shows "\<exists>e w'. server_round set_osk C srv n w = (Err e, w') \<and> osk_of w' = osk_of w \<and> elapsed w' = elapsed w"
proof -
  obtain e where "rekey_ack_validate (rekey_ack_of_bytes [b]) = Err e"
    using assms(3) by (simp add: rekey_ack_validate_def REKEY_ACK_def rekey_ack_of_bytes_def)
  with assms negotiate_request_osk [OF assms(1)] negotiate_request_elapsed [OF assms(1)] show ?thesis
    by (simp add: server_round_def negotiate_key_def negotiate_ack_def)
qed

theorem server_rejects_bad_ack_witness:
  "\<exists>e w'. server_round (outfile_set_osk rfc4648) (ack_crates 0) example_server (replicate 32 3) example_world
       = (Err e, w') \<and> osk_of w' = example_out_world"
proof -
  have "read_exact (io (ack_crates 0)) REKEY_ACK_LENGTH (stream_of example_world) = (Ok [0], ())"
    by (simp add: ack_crates_def REKEY_ACK_LENGTH_def)
  from server_rejects_bad_ack [OF example_request [of 0 "replicate 32 3"] this, of "outfile_set_osk rfc4648"]
  show ?thesis by (auto simp: example_world_def)
qed

text \<open>
  C23: when the client acknowledges. After a request has been read, whatever the key
  server's answer: if it delivers no key, by an error or a panic, the round ends
  without success, nothing is written to the stream and the target of the output key
  is as before. If it delivers a key, the client acknowledges, and only after the
  acknowledgement has been written is the key derived from the request's nonce and
  the delivered key installed; if the acknowledgement cannot be written, nothing is
  installed. The client does not look at the identifier of the delivered key: it
  acknowledges and uses whatever key the key server sends.
\<close>

theorem client_acks_only_fetched_keys:
  assumes "read_exact (io C) REKEY_REQ_LENGTH (stream_of w) = (Ok bytes, s)"
    and "fetch_specific_key (b64 C) (uuids C) (cl_etsi_client cl)
           (req_qkd_key_id (rekey_req_of_bytes bytes)) (etsi_of w) = (fetched, e')"
    and "write_all (io C) [1] s = (written, s')"
  shows "(\<not> is_Ok fetched \<longrightarrow> (\<exists>r. client_round set_osk C cl w = (r, w\<lparr>stream_of := s, etsi_of := e'\<rparr>) \<and> \<not> is_Ok r))
    \<and> (\<forall>key. fetched = Ok key \<and> \<not> is_Ok written \<longrightarrow>
         (\<exists>r. client_round set_osk C cl w = (r, w\<lparr>stream_of := s', etsi_of := e'\<rparr>) \<and> \<not> is_Ok r))
    \<and> (\<forall>key. fetched = Ok key \<and> written = Ok () \<longrightarrow>
         client_round set_osk C cl w =
           (let (r, v) = set_osk (cl_osk_handler cl)
                  (derive_daisyway_key (uuids C) (shake C) (cl_params cl) (req_nonce (rekey_req_of_bytes bytes)) key)
                  Fresh (osk_of w)
            in (r, w\<lparr>stream_of := s', etsi_of := e', osk_of := v\<rparr>)))"
proof (intro conjI impI allI)
  show "\<exists>r. client_round set_osk C cl w = (r, w\<lparr>stream_of := s, etsi_of := e'\<rparr>) \<and> \<not> is_Ok r"
    if "\<not> is_Ok fetched"
    using assms that by (cases fetched) (simp_all add: client_round_def wait_for_key_negotiation_def Let_def)
  show "\<exists>r. client_round set_osk C cl w = (r, w\<lparr>stream_of := s', etsi_of := e'\<rparr>) \<and> \<not> is_Ok r"
    if "fetched = Ok key \<and> \<not> is_Ok written" for key
    using assms that by (cases written)
      (simp_all add: client_round_def wait_for_key_negotiation_def Let_def rekey_ack_as_bytes_def REKEY_ACK_def)
  show "client_round set_osk C cl w =
           (let (r, v) = set_osk (cl_osk_handler cl)
                  (derive_daisyway_key (uuids C) (shake C) (cl_params cl) (req_nonce (rekey_req_of_bytes bytes)) key)
                  Fresh (osk_of w)
            in (r, w\<lparr>stream_of := s', etsi_of := e', osk_of := v\<rparr>))"
    if "fetched = Ok key \<and> written = Ok ()" for key
    using assms that by (simp add: client_round_def wait_for_key_negotiation_def set_fresh_osk_def
        split_beta Let_def rekey_ack_as_bytes_def REKEY_ACK_def)
qed

text \<open>
  A key server without keys, and one that answers with a key of another identifier
  than the one asked for.
\<close>

theorem client_acks_only_fetched_keys_witness:
  "(\<exists>r. client_round (outfile_set_osk rfc4648) (ack_crates 1)
      (daisyway_client_protocol_new example_params (const_connection []) (outfile_osk_handler_new ''out''))
      example_world = (r, example_world) \<and> \<not> is_Ok r)
   \<and> fst (client_round (outfile_set_osk rfc4648) (ack_crates 1)
      (daisyway_client_protocol_new example_params (const_connection [example_response])
         (outfile_osk_handler_new ''out'')) example_world) = Ok ()"
proof
  have rd: "read_exact (io (ack_crates 1)) REKEY_REQ_LENGTH (stream_of example_world)
      = (Ok (replicate REKEY_REQ_LENGTH 1), ())" by (simp add: ack_crates_def)
  have wr: "write_all (io (ack_crates 1)) [1] () = (Ok (), ())" by (simp add: ack_crates_def)
  let ?none = "daisyway_client_protocol_new example_params (const_connection []) (outfile_osk_handler_new ''out'')"
  have "fetch_specific_key rfc4648 std_uuid (const_connection []) i ()
      = (Err (Context ''Error Fetching specific key from ETSI014 URL. (key id={id})'' []
           (Fmt ''Expected exactly one key, but got {} keys'' [Num 0])), ())" for i
    by (simp add: fetch_specific_key_def fetch_key_internal_def const_connection_def
        etsi014_connection_new_def is_success_def try_from_response_keys_def)
  with client_acks_only_fetched_keys [OF rd _ wr, of ?none]
  show "\<exists>r. client_round (outfile_set_osk rfc4648) (ack_crates 1) ?none example_world = (r, example_world) \<and> \<not> is_Ok r"
    by (simp add: ack_crates_def daisyway_client_protocol_new_def example_world_def)
  let ?other = "daisyway_client_protocol_new example_params (const_connection [example_response])
      (outfile_osk_handler_new ''out'')"
  have f: "fetch_specific_key rfc4648 std_uuid (const_connection [example_response]) i w
      = (Ok \<lparr>key_id = uuid_nil, key_bytes = replicate 32 7\<rparr>, w)" for i w
    by (rule example_fetch_specific)
  have "is_key (derive_daisyway_key std_uuid fips202_shake256 example_params n q)" for n q
    by (rule fips202.derive_is_key)
  with client_acks_only_fetched_keys [OF rd _ wr, of ?other] f
  show "fst (client_round (outfile_set_osk rfc4648) (ack_crates 1) ?other example_world) = Ok ()"
    by (simp add: ack_crates_def daisyway_client_protocol_new_def example_world_def outfile_set_osk_rfc
        example_out_world_def)
qed

text \<open>
  C24: the server negotiates one key per rekey interval: a loop that is still
  running after \<open>n\<close> negotiations has slept \<open>n\<close> intervals, and the loop never
  ends without an error.
\<close>

theorem server_rekeys_each_interval:
  "(server_event_loop set_osk C srv nonces w = Running w' \<longrightarrow>
      elapsed w' = elapsed w + length nonces * unat (srv_rekey_interval srv))
   \<and> (server_event_loop set_osk C srv nonces w = Returned r w' \<longrightarrow> \<not> is_Ok r)"
proof
  show "server_event_loop set_osk C srv nonces w = Running w' \<longrightarrow>
      elapsed w' = elapsed w + length nonces * unat (srv_rekey_interval srv)"
  proof (induction nonces arbitrary: w)
    case (Cons n ns)
    obtain r w1 where w1: "server_round set_osk C srv n w = (r, w1)" by fastforce
    show ?case
    proof (cases r)
      case (Ok u)
      with w1 obtain k w2 v where "negotiate_key C srv n w = (outcome.Ok k, w2)"
        "w1 = sleep (srv_rekey_interval srv) (w2\<lparr>osk_of := v\<rparr>)" by (auto simp: server_round_Ok)
      then have "elapsed w1 = elapsed w + unat (srv_rekey_interval srv)"
        using negotiate_key_elapsed by (simp add: sleep_def)
      then show ?thesis using Cons.IH [of w1] w1 Ok by simp
    qed (use w1 in simp_all)
  qed simp
  show "server_event_loop set_osk C srv nonces w = Returned r w' \<longrightarrow> \<not> is_Ok r"
    using server_event_loop_only_fails by blast
qed

theorem server_rekeys_each_interval_witness:
  "\<exists>w'. server_event_loop (outfile_set_osk rfc4648) (ack_crates 1) example_server [replicate 32 3] example_world
       = Running w' \<and> elapsed w' = 120"
proof -
  let ?k = "derive_daisyway_key std_uuid fips202_shake256 example_params (replicate 32 3)
      \<lparr>key_id = uuid_nil, key_bytes = replicate 32 7\<rparr>"
  have "negotiate_key (ack_crates 1) example_server (replicate 32 3) example_world = (Ok ?k, example_world)"
    unfolding negotiate_key_def example_request
    by (simp add: negotiate_ack_def ack_crates_def example_server_def daisyway_server_protocol_new_def
        REKEY_ACK_LENGTH_def rekey_ack_of_bytes_def rekey_ack_validate_def REKEY_ACK_def example_world_def)
  moreover obtain v where "outfile_set_osk rfc4648 (outfile_osk_handler_new ''out'') ?k Fresh example_out_world
      = (Ok (), v)"
    using outfile_set_osk_rfc [of ?k example_out_world "outfile_osk_handler_new ''out''" Fresh]
      fips202.derive_is_key by (simp add: example_out_world_def)
  ultimately obtain w' where w': "server_event_loop (outfile_set_osk rfc4648) (ack_crates 1) example_server
      [replicate 32 3] example_world = Running w'"
    by (simp add: server_round_def set_fresh_osk_def example_world_def example_server_def
        daisyway_server_protocol_new_def)
  then show ?thesis
    using server_rekeys_each_interval [of "outfile_set_osk rfc4648" "ack_crates 1" example_server
        "[replicate 32 3]" example_world w' "Ok ()"]
    by (auto simp: example_world_def example_server_def daisyway_server_protocol_new_def)
qed

end
