(* ===== verification/Mpsc.thy ===== *)
theory Mpsc
  imports Prelude
begin

text \<open>
  The sending half of a \<open>tokio::sync::mpsc\<close> channel, an interface of several
  components: a message is appended behind the ones already sent while the
  receiver lives, and refused once it has been dropped. Waiting for room in a full
  channel is not visible to the sender; \<open>Host\<close> models it. The locale is interpreted on a queue.
\<close>

type_synonym ('e, 'c) mpsc_send = "'e \<Rightarrow> 'c \<Rightarrow> unit outcome \<times> 'c"

locale mpsc =
  fixes send :: "('e, 'c) mpsc_send"
    and sent :: "'c \<Rightarrow> 'e list"
    and receiver_alive :: "'c \<Rightarrow> bool"
  assumes send_alive: "receiver_alive c \<Longrightarrow>
      \<exists>c'. send e c = (Ok (), c') \<and> sent c' = sent c @ [e] \<and> receiver_alive c'"
    and send_closed: "\<not> receiver_alive c \<Longrightarrow> send e c = (Err SendError, c)"
begin

lemma send_result:
  assumes "send e c = (r, c')"
  shows "receiver_alive c' = receiver_alive c"
    and "r = (if receiver_alive c then Ok () else Err SendError)"
    and "sent c' = (if receiver_alive c then sent c @ [e] else sent c)"
  using send_alive [of c e] send_closed [of c e] assms by auto

end

record 'e channel =
  queue :: "'e list"
  rx_alive :: bool

abbreviation open_channel :: "'e channel" where
  "open_channel \<equiv> \<lparr>queue = [], rx_alive = True\<rparr>"

definition channel_send :: "('e, 'e channel) mpsc_send" where
  "channel_send e c = (if rx_alive c then (Ok (), c\<lparr>queue := queue c @ [e]\<rparr>)
     else (Err SendError, c))"

interpretation chan: mpsc channel_send queue rx_alive
  by unfold_locales (auto simp: channel_send_def)

end
