(* ===== verification/Fanout.thy ===== *)
theory Fanout
  imports Protocol Mpsc
begin

text \<open>
  \<open>tcp_server/events.rs\<close>, \<open>fanout_osk_handler.rs\<close>,
  \<open>fanout_connection_handler.rs\<close> and \<open>abort_on_drop_handle.rs\<close>: the events a
  connection reports to the connection manager, the output key handler that turns a
  key into such an event, the task that serves one connection, and the handle whose
  drop aborts that task.
\<close>

section \<open>Events\<close>

type_synonym connection_id = usize

record 's accept_event =
  accept_stream :: 's
  accept_addr :: string

record exit_event =
  exit_connection_id :: connection_id

record osk_event =
  osk_connection_id :: connection_id
  osk_event_key :: key
  osk_event_reason :: set_osk_reason

datatype connection_handler_event = Handler_Exit exit_event | Handler_Osk osk_event

datatype 's stream_event = Accept "'s accept_event" | Exit exit_event | Osk osk_event

definition stream_event_from :: "connection_handler_event \<Rightarrow> 's stream_event" where
  "stream_event_from e = (case e of Handler_Exit x \<Rightarrow> Exit x | Handler_Osk x \<Rightarrow> Osk x)"

section \<open>The output key handler of a connection\<close>

text \<open>The sender is the channel state the handler works on.\<close>

record fanout_osk_handler =
  fanout_connection_id :: connection_id

definition fanout_osk_handler_new :: "connection_id \<Rightarrow> fanout_osk_handler" where
  "fanout_osk_handler_new i = \<lparr>fanout_connection_id = i\<rparr>"

definition fanout_set_osk ::
  "(connection_handler_event, 'c) mpsc_send \<Rightarrow> (fanout_osk_handler, 'c) set_osk" where
  "fanout_set_osk send h key reason c =
     bind_st (send (Handler_Osk \<lparr>osk_connection_id = fanout_connection_id h, osk_event_key = key,
                                osk_event_reason = reason\<rparr>) c) (\<lambda>_ c. (Ok (), c))"

section \<open>The task of a connection\<close>

record 'e fanout_connection_handler =
  fanout_params :: daisyway_protocol_parameters
  fanout_etsi_client :: "'e etsi014_connection"
  fanout_rekey_interval :: u64

definition fanout_connection_handler_new ::
  "daisyway_protocol_parameters \<Rightarrow> 'e etsi014_connection \<Rightarrow> u64 \<Rightarrow> 'e fanout_connection_handler" where
  "fanout_connection_handler_new params etsi interval =
     \<lparr>fanout_params = params, fanout_etsi_client = etsi, fanout_rekey_interval = interval\<rparr>"

definition fanout_event_loop ::
  "(connection_handler_event, 'c) mpsc_send \<Rightarrow> 's crates \<Rightarrow> 'e fanout_connection_handler
     \<Rightarrow> connection_id \<Rightarrow> nonce list \<Rightarrow> ('s, 'e, 'c) party_world
     \<Rightarrow> (unit outcome, ('s, 'e, 'c) party_world) loop_state" where
  "fanout_event_loop send C f i nonces w =
     server_event_loop (fanout_set_osk send) C
       (daisyway_server_protocol_new (fanout_params f) (fanout_etsi_client f)
          (fanout_osk_handler_new i) (fanout_rekey_interval f)) nonces w"

definition init_task ::
  "(connection_handler_event, 'c) mpsc_send \<Rightarrow> 's crates \<Rightarrow> 'e fanout_connection_handler
     \<Rightarrow> connection_id \<Rightarrow> nonce list \<Rightarrow> ('s, 'e, 'c) party_world
     \<Rightarrow> (unit outcome, ('s, 'e, 'c) party_world) loop_state" where
  "init_task send C f i nonces w = (case fanout_event_loop send C f i nonces w of
       Running w' \<Rightarrow> Running w'
     | Returned (Panic m) w' \<Rightarrow> Returned (Panic m) w'
     | Returned _ w' \<Rightarrow> (case on_osk (send (Handler_Exit \<lparr>exit_connection_id = i\<rparr>)) w' of
           (Panic m, w'') \<Rightarrow> Returned (Panic m) w''
         | (_, w'') \<Rightarrow> Returned (Ok ()) w''))"

text \<open>
  The runtime as far as the manager can see it: the tasks spawned so far, in order,
  and the tasks that have been told to abort. A handle of a task is its position.
\<close>

record ('s, 'e) task =
  task_handler :: "'e fanout_connection_handler"
  task_connection :: connection_id
  task_stream :: 's

record ('s, 'e) runtime =
  spawned :: "('s, 'e) task list"
  aborted :: "nat list"

definition fanout_spawn ::
  "'e fanout_connection_handler \<Rightarrow> connection_id \<Rightarrow> 's \<Rightarrow> ('s, 'e) runtime \<Rightarrow> nat \<times> ('s, 'e) runtime" where
  "fanout_spawn f i stream rt = (length (spawned rt), rt\<lparr>spawned := spawned rt
     @ [\<lparr>task_handler = f, task_connection = i, task_stream = stream\<rparr>]\<rparr>)"

record abort_on_drop_handle =
  abort_task :: nat

definition abort_on_drop_handle_from :: "nat \<Rightarrow> abort_on_drop_handle" where
  "abort_on_drop_handle_from t = \<lparr>abort_task = t\<rparr>"

definition drop_handle :: "abort_on_drop_handle \<Rightarrow> ('s, 'e) runtime \<Rightarrow> ('s, 'e) runtime" where
  "drop_handle h rt = rt\<lparr>aborted := aborted rt @ [abort_task h]\<rparr>"

section \<open>Lemmas\<close>

definition fresh_key_event :: "connection_id \<Rightarrow> key \<Rightarrow> connection_handler_event" where
  "fresh_key_event i k =
     Handler_Osk \<lparr>osk_connection_id = i, osk_event_key = k, osk_event_reason = Fresh\<rparr>"

text \<open>The channel to the connection manager, and the event a fresh key becomes.\<close>

locale event_channel = mpsc send sent receiver_alive
  for send :: "(connection_handler_event, 'c) mpsc_send"
    and sent :: "'c \<Rightarrow> connection_handler_event list"
    and receiver_alive :: "'c \<Rightarrow> bool"
begin

lemma fanout_set_osk_result:
  assumes "fanout_set_osk send h k r c = (res, c')"
  shows "receiver_alive c' = receiver_alive c"
    and "sent c' = (if receiver_alive c
           then sent c @ [Handler_Osk \<lparr>osk_connection_id = fanout_connection_id h, osk_event_key = k,
                                      osk_event_reason = r\<rparr>] else sent c)"
    and "res = (if receiver_alive c then Ok () else Err SendError)"
proof -
  obtain r1 c1 where c1: "send (Handler_Osk \<lparr>osk_connection_id = fanout_connection_id h,
      osk_event_key = k, osk_event_reason = r\<rparr>) c = (r1, c1)" by fastforce
  note res = send_result [OF c1]
  have "c1 = c' \<and> res = r1"
    using assms c1 res(2) by (auto simp: fanout_set_osk_def split: if_splits)
  with res show "receiver_alive c' = receiver_alive c"
    "sent c' = (if receiver_alive c
           then sent c @ [Handler_Osk \<lparr>osk_connection_id = fanout_connection_id h, osk_event_key = k,
                                      osk_event_reason = r\<rparr>] else sent c)"
    "res = (if receiver_alive c then Ok () else Err SendError)" by auto
qed

lemma server_round_reports:
  assumes "server_round (fanout_set_osk send) C srv n w = (r, w')" "receiver_alive (osk_of w)"
  shows "receiver_alive (osk_of w') \<and>
    (if is_Ok r then \<exists>q. sent (osk_of w') = sent (osk_of w)
        @ [fresh_key_event (fanout_connection_id (srv_osk_handler srv)) (offered_key C srv (q, n))]
     else osk_of w' = osk_of w)"
proof -
  obtain r1 w1 where n: "negotiate_key C srv n w = (r1, w1)" by fastforce
  note osk = negotiate_key_osk [OF n]
  show ?thesis
  proof (cases r1)
    case (Ok k)
    obtain r2 v where v: "fanout_set_osk send (srv_osk_handler srv) k Fresh (osk_of w1) = (r2, v)" by fastforce
    have "r2 = Ok ()" using fanout_set_osk_result(3) [OF v] osk(1) assms(2) by simp
    moreover obtain q where q: "k = offered_key C srv (q, n)" using osk(2) Ok by blast
    ultimately have "r = Ok ()" "osk_of w' = v"
      using Ok n v assms(1) by (auto simp: server_round_def set_fresh_osk_def sleep_def)
    with fanout_set_osk_result(1,2) [OF v] osk(1) q assms(2) show ?thesis
      by (auto simp: fresh_key_event_def simp del: split_paired_Ex)
  qed (use assms n osk in \<open>auto simp: server_round_def\<close>)
qed

lemma server_event_loop_reports:
  assumes "server_event_loop (fanout_set_osk send) C srv ns w = res" "receiver_alive (osk_of w)"
  shows "\<exists>qs. sent (osk_of (loop_world res)) = sent (osk_of w)
      @ map (\<lambda>q. fresh_key_event (fanout_connection_id (srv_osk_handler srv)) (offered_key C srv q)) (zip qs ns)
    \<and> receiver_alive (osk_of (loop_world res))
    \<and> (if still_running res then length qs = length ns else length qs < length ns)"
  using assms
proof (induction ns arbitrary: w)
  case (Cons n ns)
  let ?ev = "\<lambda>q. fresh_key_event (fanout_connection_id (srv_osk_handler srv)) (offered_key C srv q)"
  obtain r w1 where w1: "server_round (fanout_set_osk send) C srv n w = (r, w1)" by fastforce
  note rep = server_round_reports [OF w1 Cons.prems(2)]
  show ?case
  proof (cases r)
    case (Ok u)
    then obtain q where q: "sent (osk_of w1) = sent (osk_of w) @ [?ev (q, n)]" "receiver_alive (osk_of w1)"
      using rep by auto
    have "server_event_loop (fanout_set_osk send) C srv ns w1 = res" using Cons.prems(1) w1 Ok by simp
    from Cons.IH [OF this q(2)] q(1) obtain qs where
      "sent (osk_of (loop_world res)) = sent (osk_of w) @ map ?ev (zip (q # qs) (n # ns))"
      "receiver_alive (osk_of (loop_world res))"
      "if still_running res then length qs = length ns else length qs < length ns" by auto
    then show ?thesis by (intro exI [of _ "q # qs"]) (auto split: if_splits)
  next
    case (Err e)
    then show ?thesis using Cons.prems w1 rep by (intro exI [of _ "[]"]) auto
  next
    case (Panic m)
    then show ?thesis using Cons.prems w1 rep by (intro exI [of _ "[]"]) auto
  qed
qed auto

lemma init_task_reports:
  assumes "init_task send C f i ns w = res" "receiver_alive (osk_of w)"
  shows "\<exists>qs. sent (osk_of (loop_world res)) = sent (osk_of w)
      @ map (\<lambda>(q, n). fresh_key_event i (derive_daisyway_key (uuids C) (shake C) (fanout_params f) n q)) (zip qs ns)
      @ (case res of Returned (Ok _) w' \<Rightarrow> [Handler_Exit \<lparr>exit_connection_id = i\<rparr>] | _ \<Rightarrow> [])
    \<and> (if still_running res then length qs = length ns else length qs < length ns)"
proof -
  obtain l where l: "fanout_event_loop send C f i ns w = l" by simp
  let ?key = "\<lambda>(q, n). fresh_key_event i (derive_daisyway_key (uuids C) (shake C) (fanout_params f) n q)"
  obtain qs where qs: "sent (osk_of (loop_world l)) = sent (osk_of w) @ map ?key (zip qs ns)"
      "if still_running l then length qs = length ns else length qs < length ns"
    and alive: "receiver_alive (osk_of (loop_world l))"
    using server_event_loop_reports [OF l [unfolded fanout_event_loop_def] assms(2)]
    by (auto simp: daisyway_server_protocol_new_def fanout_osk_handler_new_def offered_key_def case_prod_unfold)
  obtain r1 c where c: "send (Handler_Exit \<lparr>exit_connection_id = i\<rparr>) (osk_of (loop_world l)) = (r1, c)"
    by fastforce
  have "r1 = Ok ()" "sent c = sent (osk_of (loop_world l)) @ [Handler_Exit \<lparr>exit_connection_id = i\<rparr>]"
    using send_result [OF c] alive by auto
  then show ?thesis using assms(1) l qs c
    by (intro exI [of _ qs])
      (auto simp: init_task_def fanout_event_loop_def split: loop_state.splits outcome.splits
        dest: server_event_loop_only_fails)
qed

end

interpretation events: event_channel channel_send queue rx_alive
  by (rule event_channel.intro) (rule chan.mpsc_axioms)

section \<open>Properties\<close>

text \<open>
  C17: the task of a connection reports to a living manager one fresh key per
  completed negotiation, in order and under its own connection number, each derived
  from a QKD key with the nonce drawn for that negotiation, and ends its
  reports with exactly one exit notification when it returns. A task that panics
  reports no exit.
\<close>

theorem connection_task_reports:
  assumes "mpsc send sent alive" and "alive (osk_of w)" and "init_task send C f i nonces w = res"
  shows "\<exists>qs. sent (osk_of (loop_world res)) = sent (osk_of w)
      @ map (\<lambda>(q, n). fresh_key_event i (derive_daisyway_key (uuids C) (shake C) (fanout_params f) n q))
          (zip qs nonces)
      @ (case res of Returned (Ok _) w' \<Rightarrow> [Handler_Exit \<lparr>exit_connection_id = i\<rparr>] | _ \<Rightarrow> [])
    \<and> (if still_running res then length qs = length nonces else length qs < length nonces)"
  by (rule event_channel.init_task_reports [OF event_channel.intro [OF assms(1)] assms(3,2)])

definition down_connection :: "unit etsi014_connection" where
  "down_connection = etsi014_connection_new ''http://kme'' ''SAE'' (\<lambda>uri w. (Err (Foreign 0), w))"

definition no_stream :: "unit crates" where
  "no_stream = \<lparr>b64 = rfc4648, uuids = std_uuid, shake = fips202_shake256,
     io = \<lparr>read_exact = (\<lambda>n s. (Err (Io UnexpectedEof), s)), write_all = (\<lambda>bs s. (Ok (), s))\<rparr>\<rparr>"

theorem connection_task_reports_witness:
  "\<exists>w'. init_task channel_send no_stream (fanout_connection_handler_new example_params down_connection 120) 7
        [replicate 32 1] \<lparr>stream_of = (), etsi_of = (), osk_of = \<lparr>queue = [], rx_alive = True\<rparr>, elapsed = 0\<rparr>
      = Returned (Ok ()) w' \<and> queue (osk_of w') = [Handler_Exit \<lparr>exit_connection_id = 7\<rparr>]"
proof -
  let ?w = "\<lparr>stream_of = (), etsi_of = (), osk_of = \<lparr>queue = [], rx_alive = True\<rparr>, elapsed = 0\<rparr>
      :: (unit, unit, connection_handler_event channel) party_world"
  let ?f = "fanout_connection_handler_new example_params down_connection 120"
  obtain w' where w': "init_task channel_send no_stream ?f 7 [replicate 32 1] ?w = Returned (Ok ()) w'"
    by (simp add: init_task_def fanout_event_loop_def server_round_def negotiate_key_def
        negotiate_request_def fetch_any_key_def fetch_key_internal_def down_connection_def
        etsi014_connection_new_def fanout_connection_handler_new_def daisyway_server_protocol_new_def
        channel_send_def)
  from connection_task_reports [OF chan.mpsc_axioms _ w'] w' show ?thesis by auto
qed

end
