(* ===== verification/BTree_Map.thy ===== *)
theory BTree_Map
  imports Prelude
begin

text \<open>
  \<open>std::collections::BTreeMap\<close> as the connection manager uses it. The locale
  \<open>ordered_map\<close> is the interface with its laws and the two idioms the manager
  builds on it: inserting after making room by removing the smallest key, and
  taking one key out together with everything below it. The model is an
  association list in ascending key order.
\<close>

section \<open>The interface\<close>

locale ordered_map =
  fixes empty :: "'m"
    and insert :: "'k :: linorder \<Rightarrow> 'v \<Rightarrow> 'm \<Rightarrow> 'v option \<times> 'm"
    and remove :: "'k \<Rightarrow> 'm \<Rightarrow> 'v option \<times> 'm"
    and pop_first :: "'m \<Rightarrow> ('k \<times> 'v) option \<times> 'm"
    and split_off :: "'k \<Rightarrow> 'm \<Rightarrow> 'm \<times> 'm"
    and len :: "'m \<Rightarrow> nat"
    and lookup :: "'m \<Rightarrow> 'k \<rightharpoonup> 'v"
    and invar :: "'m \<Rightarrow> bool"
  assumes lookup_empty: "lookup empty = Map.empty"
    and invar_empty: "invar empty"
    and insert_spec: "invar m \<Longrightarrow> insert k v m = (old, m') \<Longrightarrow>
          old = lookup m k \<and> lookup m' = (lookup m)(k \<mapsto> v) \<and> invar m'"
    and remove_spec: "invar m \<Longrightarrow> remove k m = (old, m') \<Longrightarrow>
          old = lookup m k \<and> lookup m' = (lookup m)(k := None) \<and> invar m'"
    and pop_first_None: "invar m \<Longrightarrow> pop_first m = (None, m') \<Longrightarrow> lookup m = Map.empty \<and> m' = m"
    and pop_first_Some: "invar m \<Longrightarrow> pop_first m = (Some (k, v), m') \<Longrightarrow>
          lookup m k = Some v \<and> (\<forall>j \<in> dom (lookup m). k \<le> j)
          \<and> lookup m' = (lookup m)(k := None) \<and> invar m'"
    and split_off_spec: "invar m \<Longrightarrow> split_off k m = (lo, hi) \<Longrightarrow>
          lookup lo = lookup m |` {..<k} \<and> lookup hi = lookup m |` {k..}
          \<and> invar lo \<and> invar hi"
    and len_spec: "invar m \<Longrightarrow> finite (dom (lookup m)) \<and> len m = card (dom (lookup m))"
begin

lemma pop_first_full:
  assumes "invar m" "0 < len m"
  obtains k v m' where "pop_first m = (Some (k, v), m')" and "lookup m k = Some v"
    and "\<And>j. j \<in> dom (lookup m) \<Longrightarrow> k \<le> j"
    and "lookup m' = (lookup m)(k := None)" and "invar m'" and "len m' = len m - 1"
proof -
  obtain r m' where pf: "pop_first m = (r, m')" by fastforce
  show thesis
  proof (cases r)
    case None
    then show thesis using pf assms pop_first_None [of m m'] len_spec [of m] by simp
  next
    case (Some kv)
    obtain k v where kv: "kv = (k, v)" by fastforce
    with Some pf assms have p: "lookup m k = Some v" "\<forall>j \<in> dom (lookup m). k \<le> j"
      "lookup m' = (lookup m)(k := None)" "invar m'"
      using pop_first_Some [of m k v m'] by auto
    then have "len m' = len m - 1"
      using len_spec [of m'] len_spec [of m] assms(1) domI [of "lookup m" k v]
      by (simp add: card_Diff_singleton)
    with that p Some kv pf show thesis by blast
  qed
qed

lemma len_insert:
  assumes "invar m" "insert k v m = (old, m')" "k \<notin> dom (lookup m)"
  shows "len m' = Suc (len m)"
  using insert_spec [OF assms(1,2)] len_spec [of m] len_spec [of m'] assms(1,3) by auto

lemma len_remove_le:
  assumes "invar m" "remove k m = (old, m')"
  shows "len m' \<le> len m"
proof -
  have "card (dom (lookup m) - {k}) \<le> card (dom (lookup m))"
    by (rule card_Diff1_le)
  then show ?thesis
    using remove_spec [OF assms] len_spec [of m] len_spec [of m'] assms(1) by simp
qed

lemma promote:
  assumes "invar m" "remove k m = (Some v, m')" "split_off k m' = (lo, hi)"
  shows "lookup m k = Some v" and "lookup hi = lookup m |` {k<..}"
    and "lookup lo = lookup m |` {..<k}" and "invar hi" and "invar lo"
    and "len hi \<le> len m"
proof -
  have r: "lookup m k = Some v" "lookup m' = (lookup m)(k := None)" "invar m'"
    using remove_spec [OF assms(1,2)] by auto
  have s: "lookup lo = lookup m' |` {..<k}" "lookup hi = lookup m' |` {k..}"
    "invar lo" "invar hi"
    using split_off_spec [OF r(3) assms(3)] by auto
  show "lookup m k = Some v" by (rule r)
  show hi: "lookup hi = lookup m |` {k<..}"
    unfolding s(2) r(2) by (rule ext) (auto simp: restrict_map_def)
  show "lookup lo = lookup m |` {..<k}"
    unfolding s(1) r(2) by (rule ext) (auto simp: restrict_map_def)
  show "invar hi" "invar lo" by (rule s)+
  show "len hi \<le> len m"
    using len_spec [OF assms(1)] len_spec [OF s(4)] hi by (auto intro: card_mono)
qed

end

section \<open>Sorted association lists\<close>

type_synonym ('k, 'v) btree = "('k \<times> 'v) list"

definition bt_invar :: "('k :: linorder, 'v) btree \<Rightarrow> bool" where
  "bt_invar m \<longleftrightarrow> sorted_wrt (<) (map fst m)"

fun bt_put :: "'k :: linorder \<Rightarrow> 'v \<Rightarrow> ('k, 'v) btree \<Rightarrow> ('k, 'v) btree" where
  "bt_put k v [] = [(k, v)]"
| "bt_put k v ((j, u) # m) =
     (if k < j then (k, v) # (j, u) # m else if k = j then (k, v) # m else (j, u) # bt_put k v m)"

definition bt_insert :: "'k :: linorder \<Rightarrow> 'v \<Rightarrow> ('k, 'v) btree \<Rightarrow> 'v option \<times> ('k, 'v) btree" where
  "bt_insert k v m = (map_of m k, bt_put k v m)"

definition bt_remove :: "'k :: linorder \<Rightarrow> ('k, 'v) btree \<Rightarrow> 'v option \<times> ('k, 'v) btree" where
  "bt_remove k m = (map_of m k, filter (\<lambda>(j, v). j \<noteq> k) m)"

definition bt_pop_first :: "('k :: linorder, 'v) btree \<Rightarrow> ('k \<times> 'v) option \<times> ('k, 'v) btree" where
  "bt_pop_first m = (case m of [] \<Rightarrow> (None, []) | kv # m' \<Rightarrow> (Some kv, m'))"

text \<open>\<open>split_off(&k)\<close>: what stays in the map, and the part from \<open>k\<close> on.\<close>

definition bt_split_off ::
  "'k :: linorder \<Rightarrow> ('k, 'v) btree \<Rightarrow> ('k, 'v) btree \<times> ('k, 'v) btree" where
  "bt_split_off k m = (filter (\<lambda>(j, v). j < k) m, filter (\<lambda>(j, v). \<not> j < k) m)"

lemma bt_invar_simps [simp]:
  "bt_invar []" "bt_invar ((k, v) # m) \<longleftrightarrow> (\<forall>j \<in> fst ` set m. k < j) \<and> bt_invar m"
  by (auto simp: bt_invar_def)

lemma fst_set_bt_put: "fst ` set (bt_put k v m) = Set.insert k (fst ` set m)"
  by (induction k v m rule: bt_put.induct) (simp_all add: insert_commute)

lemma bt_put_invar: "bt_invar m \<Longrightarrow> bt_invar (bt_put k v m)"
proof (induction m)
  case (Cons a m)
  obtain j u where "a = (j, u)" by fastforce
  then show ?case using Cons by (auto simp: fst_set_bt_put dest: less_trans)
qed simp

lemma map_of_bt_put: "bt_invar m \<Longrightarrow> map_of (bt_put k v m) = (map_of m)(k \<mapsto> v)"
proof (induction m)
  case (Cons a m)
  obtain j u where a: "a = (j, u)" by fastforce
  show ?case
  proof (cases "k < j \<or> k = j")
    case True
    then show ?thesis using a by (auto simp: fun_eq_iff)
  next
    case False
    then show ?thesis using Cons a by (auto simp: fun_eq_iff)
  qed
qed simp

lemma bt_invar_filter: "bt_invar m \<Longrightarrow> bt_invar (filter P m)"
proof (induction m)
  case (Cons a m)
  then show ?case by (cases a) auto
qed simp

lemma map_of_filter_key:
  "map_of (filter (\<lambda>(j, v). P j) m) = map_of m |` {k. P k}"
  by (induction m) (auto simp: fun_eq_iff restrict_map_def)

lemma bt_invar_distinct: "bt_invar m \<Longrightarrow> distinct (map fst m)"
  by (simp add: bt_invar_def strict_sorted_iff)

lemma length_bt: "bt_invar m \<Longrightarrow> length m = card (dom (map_of m))"
  using distinct_card [OF bt_invar_distinct [of m]] by (simp add: dom_map_of_conv_image_fst)

interpretation bt: ordered_map "[]" bt_insert bt_remove bt_pop_first bt_split_off length map_of bt_invar
proof (unfold_locales, goal_cases)
  case (3 m k v old m')
  then show ?case by (auto simp: bt_insert_def bt_put_invar map_of_bt_put)
next
  case (4 m k old m')
  then show ?case using map_of_filter_key [of "\<lambda>j. j \<noteq> k" m]
    by (auto simp: bt_remove_def bt_invar_filter restrict_map_def fun_eq_iff)
next
  case (5 m m')
  then show ?case by (auto simp: bt_pop_first_def split: list.splits)
next
  case (6 m k v m')
  then show ?case
    by (auto simp: bt_pop_first_def fun_eq_iff map_of_eq_None_iff dom_map_of_conv_image_fst
        split: list.splits)
next
  case (7 m k lo hi)
  then show ?case
    using map_of_filter_key [of "\<lambda>j. j < k" m] map_of_filter_key [of "\<lambda>j. \<not> j < k" m]
    by (auto simp: bt_split_off_def bt_invar_filter lessThan_def atLeast_def not_less)
next
  case (8 m)
  then show ?case by (simp add: length_bt finite_dom_map_of)
qed simp_all

end
