(* ===== verification/Connection_Manager.thy ===== *)
theory Connection_Manager
  imports Fanout BTree_Map
begin

text \<open>
  \<open>tcp_server/connection_manager.rs\<close>: the server's bookkeeping of its
  connections. A connection is budding until it delivers its first key, which makes
  it the active one and drops the previously active connection and all older
  budding ones. The state of the manager is one record together with the two parts
  of the environment its handlers change: the task runtime and the target of the
  output key.
\<close>

section \<open>State\<close>

definition MAX_BUDDING_CONNECTIONS :: nat where
  "MAX_BUDDING_CONNECTIONS = 2000"

record ('h, 's, 'e, 'w) connection_manager =
  cm_osk_handler :: 'h
  cm_fanout :: "'e fanout_connection_handler"
  next_connection_id :: connection_id
  active_connection :: "(connection_id \<times> abort_on_drop_handle) option"
  budding_connections :: "(connection_id, abort_on_drop_handle) btree"
  cm_tasks :: "('s, 'e) runtime"
  cm_sink :: 'w

definition connection_manager_new ::
  "daisyway_protocol_parameters \<Rightarrow> 'e etsi014_connection \<Rightarrow> 'h \<Rightarrow> u64 \<Rightarrow> 'w
     \<Rightarrow> ('h, 's, 'e, 'w) connection_manager" where
  "connection_manager_new params etsi h rekey_interval w =
     \<lparr>cm_osk_handler = h, cm_fanout = fanout_connection_handler_new params etsi rekey_interval,
      next_connection_id = 0, active_connection = None, budding_connections = [],
      cm_tasks = \<lparr>spawned = [], aborted = []\<rparr>, cm_sink = w\<rparr>"

definition cm_drop ::
  "abort_on_drop_handle list \<Rightarrow> ('h, 's, 'e, 'w) connection_manager \<Rightarrow> ('h, 's, 'e, 'w) connection_manager" where
  "cm_drop hs m = m\<lparr>cm_tasks := fold drop_handle hs (cm_tasks m)\<rparr>"

definition active_connection_id :: "('h, 's, 'e, 'w) connection_manager \<Rightarrow> connection_id option" where
  "active_connection_id m = map_option fst (active_connection m)"

text \<open>
  The increment wraps around or panics, depending on whether the program is built
  with overflow checks.
\<close>

definition allocate_connection_id ::
  "bool \<Rightarrow> ('h, 's, 'e, 'w) connection_manager
     \<Rightarrow> connection_id outcome \<times> ('h, 's, 'e, 'w) connection_manager" where
  "allocate_connection_id overflow_checks m =
     (let r = next_connection_id m in
      if overflow_checks \<and> r = - 1 then (Panic ''attempt to add with overflow'', m)
      else (Ok r, m\<lparr>next_connection_id := r + 1\<rparr>))"

section \<open>Handlers\<close>

definition prune_oldest ::
  "('h, 's, 'e, 'w) connection_manager \<Rightarrow> unit outcome \<times> ('h, 's, 'e, 'w) connection_manager" where
  "prune_oldest m =
     (if MAX_BUDDING_CONNECTIONS \<le> length (budding_connections m)
      then (case bt_pop_first (budding_connections m) of
          (None, _) \<Rightarrow> (Panic ''Could not prune oldest budding connection'', m)
        | (Some (pruned_id, h), rest) \<Rightarrow> (Ok (), cm_drop [h] (m\<lparr>budding_connections := rest\<rparr>)))
      else (Ok (), m))"

definition register_connection ::
  "connection_id \<Rightarrow> 's \<Rightarrow> ('h, 's, 'e, 'w) connection_manager \<Rightarrow> ('h, 's, 'e, 'w) connection_manager" where
  "register_connection i stream m =
     (let (t, rt) = fanout_spawn (cm_fanout m) i stream (cm_tasks m);
          (old, b) = bt_insert i (abort_on_drop_handle_from t) (budding_connections m)
      in cm_drop (case old of None \<Rightarrow> [] | Some h \<Rightarrow> [h]) (m\<lparr>cm_tasks := rt, budding_connections := b\<rparr>))"

definition on_accept ::
  "bool \<Rightarrow> 's accept_event \<Rightarrow> ('h, 's, 'e, 'w) connection_manager
     \<Rightarrow> unit outcome \<times> ('h, 's, 'e, 'w) connection_manager" where
  "on_accept overflow_checks ev m =
     bind_st (allocate_connection_id overflow_checks m) (\<lambda>i m.
       bind_st (prune_oldest m) (\<lambda>_ m. (Ok (), register_connection i (accept_stream ev) m)))"

definition on_exit ::
  "exit_event \<Rightarrow> ('h, 's, 'e, 'w) connection_manager
     \<Rightarrow> unit outcome \<times> ('h, 's, 'e, 'w) connection_manager" where
  "on_exit ev m =
     (let conn_id = exit_connection_id ev in
      if Some conn_id = active_connection_id m
      then (Ok (), cm_drop (case active_connection m of None \<Rightarrow> [] | Some (_, h) \<Rightarrow> [h])
                     (m\<lparr>active_connection := None\<rparr>))
      else (case bt_remove conn_id (budding_connections m) of
          (Some h, b) \<Rightarrow> (Ok (), cm_drop [h] (m\<lparr>budding_connections := b\<rparr>))
        | (None, b) \<Rightarrow> (Ok (), m\<lparr>budding_connections := b\<rparr>)))"

definition on_osk_from_stale ::
  "osk_event \<Rightarrow> ('h, 's, 'e, 'w) connection_manager
     \<Rightarrow> unit outcome \<times> ('h, 's, 'e, 'w) connection_manager" where
  "on_osk_from_stale ev m = (Ok (), m)"

definition forward_osk ::
  "('h, 'w) set_osk \<Rightarrow> osk_event \<Rightarrow> ('h, 's, 'e, 'w) connection_manager
     \<Rightarrow> unit outcome \<times> ('h, 's, 'e, 'w) connection_manager" where
  "forward_osk set_osk ev m =
     (let (r, w) = set_osk (cm_osk_handler m) (osk_event_key ev) (osk_event_reason ev) (cm_sink m)
      in (r, m\<lparr>cm_sink := w\<rparr>))"

definition on_osk_from_active ::
  "('h, 'w) set_osk \<Rightarrow> osk_event \<Rightarrow> ('h, 's, 'e, 'w) connection_manager
     \<Rightarrow> unit outcome \<times> ('h, 's, 'e, 'w) connection_manager" where
  "on_osk_from_active set_osk ev m = forward_osk set_osk ev m"

text \<open>
  The replaced active connection is dropped by the assignment, the skipped budding
  connections when the function ends, whatever the handler of the key returns.
\<close>

definition on_osk_from_budding ::
  "('h, 'w) set_osk \<Rightarrow> osk_event \<Rightarrow> ('h, 's, 'e, 'w) connection_manager
     \<Rightarrow> unit outcome \<times> ('h, 's, 'e, 'w) connection_manager" where
  "on_osk_from_budding set_osk ev m =
     (let new_active_id = osk_connection_id ev in
      case bt_remove new_active_id (budding_connections m) of
        (None, b) \<Rightarrow> (Ok (), m\<lparr>budding_connections := b\<rparr>)
      | (Some new_active_handle, b) \<Rightarrow>
          (let (removed, kept) = bt_split_off new_active_id b;
               m1 = cm_drop (case active_connection m of None \<Rightarrow> [] | Some (_, h) \<Rightarrow> [h])
                      (m\<lparr>budding_connections := kept,
                         active_connection := Some (new_active_id, new_active_handle)\<rparr>);
               (r, m2) = forward_osk set_osk ev m1
           in (r, cm_drop (map snd removed) m2)))"

definition on_osk_event ::
  "('h, 'w) set_osk \<Rightarrow> osk_event \<Rightarrow> ('h, 's, 'e, 'w) connection_manager
     \<Rightarrow> unit outcome \<times> ('h, 's, 'e, 'w) connection_manager" where
  "on_osk_event set_osk ev m = (case active_connection_id m of
       None \<Rightarrow> on_osk_from_budding set_osk ev m
     | Some active \<Rightarrow>
         (if osk_connection_id ev < active then on_osk_from_stale ev m
          else if osk_connection_id ev = active then on_osk_from_active set_osk ev m
          else on_osk_from_budding set_osk ev m))"

definition on_event ::
  "bool \<Rightarrow> ('h, 'w) set_osk \<Rightarrow> 's stream_event \<Rightarrow> ('h, 's, 'e, 'w) connection_manager
     \<Rightarrow> unit outcome \<times> ('h, 's, 'e, 'w) connection_manager" where
  "on_event overflow_checks set_osk ev m = (case ev of
       Accept ev \<Rightarrow> on_accept overflow_checks ev m
     | Exit ev \<Rightarrow> on_exit ev m
     | Osk ev \<Rightarrow> on_osk_event set_osk ev m)"

section \<open>The event loop\<close>

text \<open>What \<open>select!\<close> yields: the listener's answer or the next notification, if any is left.\<close>

datatype 's selected = Accepted "'s accept_event" | Accept_Failed error
  | Notified connection_handler_event | Notify_Closed

definition selected_event :: "'s selected \<Rightarrow> 's stream_event outcome" where
  "selected_event x = (case x of
       Accepted ev \<Rightarrow> Ok (Accept ev)
     | Accept_Failed e \<Rightarrow> Err e
     | Notified ev \<Rightarrow> Ok (stream_event_from ev)
     | Notify_Closed \<Rightarrow> Err (Fmt ''OSK notification queue closed. This is a bug!'' []))"

fun manager_event_loop ::
  "bool \<Rightarrow> ('h, 'w) set_osk \<Rightarrow> 's selected list \<Rightarrow> ('h, 's, 'e, 'w) connection_manager
     \<Rightarrow> (unit outcome, ('h, 's, 'e, 'w) connection_manager) loop_state" where
  "manager_event_loop overflow_checks set_osk [] m = Running m"
| "manager_event_loop overflow_checks set_osk (x # xs) m =
     (case bind_st (selected_event x, m) (on_event overflow_checks set_osk) of
        (Ok _, m') \<Rightarrow> manager_event_loop overflow_checks set_osk xs m'
      | (r, m') \<Rightarrow> Returned r m')"

text \<open>Dropping the manager drops the handles it still holds.\<close>

definition drop_manager ::
  "('h, 's, 'e, 'w) connection_manager \<Rightarrow> ('h, 's, 'e, 'w) connection_manager" where
  "drop_manager m = cm_drop ((case active_connection m of None \<Rightarrow> [] | Some (_, h) \<Rightarrow> [h])
       @ map snd (budding_connections m)) (m\<lparr>active_connection := None, budding_connections := []\<rparr>)"

section \<open>Invariant\<close>

definition held :: "('h, 's, 'e, 'w) connection_manager \<Rightarrow> connection_id \<rightharpoonup> abort_on_drop_handle" where
  "held m = (case active_connection m of None \<Rightarrow> map_of (budding_connections m)
     | Some (i, h) \<Rightarrow> (map_of (budding_connections m))(i \<mapsto> h))"

text \<open>
  Connections are numbered in the order of their tasks, every handle belongs to the
  task of its connection, the active connection is older than every budding one,
  and the tasks that have been aborted are exactly those without a handle.
\<close>

definition cm_core :: "('h, 's, 'e, 'w) connection_manager \<Rightarrow> bool" where
  "cm_core m \<longleftrightarrow> bt_invar (budding_connections m)
     \<and> length (budding_connections m) \<le> MAX_BUDDING_CONNECTIONS
     \<and> length (spawned (cm_tasks m)) < 2 ^ 64
     \<and> (\<forall>i h. held m i = Some h \<longrightarrow> abort_task h = unat i \<and> unat i < length (spawned (cm_tasks m)))
     \<and> (\<forall>a. active_connection_id m = Some a \<longrightarrow> (\<forall>i \<in> dom (map_of (budding_connections m)). a < i))
     \<and> set (aborted (cm_tasks m)) = {..<length (spawned (cm_tasks m))} - unat ` dom (held m)
     \<and> (\<forall>t < length (spawned (cm_tasks m)).
          task_connection (spawned (cm_tasks m) ! t) = of_nat t
          \<and> task_handler (spawned (cm_tasks m) ! t) = cm_fanout m)"

definition cm_inv :: "('h, 's, 'e, 'w) connection_manager \<Rightarrow> bool" where
  "cm_inv m \<longleftrightarrow> cm_core m \<and> unat (next_connection_id m) = length (spawned (cm_tasks m))"

section \<open>The specification\<close>

text \<open>
  The manager as sets of connection numbers: \<open>spec_event\<close> tells whether an event
  installs its key, and the state after it.
\<close>

record spec_manager =
  spec_next :: nat
  spec_active :: "nat option"
  spec_budding :: "nat set"

definition spec_accept :: "spec_manager \<Rightarrow> spec_manager" where
  "spec_accept s = s\<lparr>spec_next := Suc (spec_next s),
     spec_budding := insert (spec_next s)
       (if MAX_BUDDING_CONNECTIONS \<le> card (spec_budding s)
        then spec_budding s - {Min (spec_budding s)} else spec_budding s)\<rparr>"

definition spec_exit :: "nat \<Rightarrow> spec_manager \<Rightarrow> spec_manager" where
  "spec_exit i s = (if spec_active s = Some i then s\<lparr>spec_active := None\<rparr>
     else s\<lparr>spec_budding := spec_budding s - {i}\<rparr>)"

definition spec_osk :: "nat \<Rightarrow> spec_manager \<Rightarrow> bool \<times> spec_manager" where
  "spec_osk i s = (if spec_active s = Some i then (True, s)
     else if i \<in> spec_budding s
       then (True, s\<lparr>spec_active := Some i, spec_budding := {j \<in> spec_budding s. i < j}\<rparr>)
       else (False, s))"

definition spec_event :: "'s stream_event \<Rightarrow> spec_manager \<Rightarrow> bool \<times> spec_manager" where
  "spec_event ev s = (case ev of
       Accept _ \<Rightarrow> (False, spec_accept s)
     | Exit x \<Rightarrow> (False, spec_exit (unat (exit_connection_id x)) s)
     | Osk x \<Rightarrow> spec_osk (unat (osk_connection_id x)) s)"

definition abs_manager :: "('h, 's, 'e, 'w) connection_manager \<Rightarrow> spec_manager" where
  "abs_manager m = \<lparr>spec_next = unat (next_connection_id m),
     spec_active = map_option unat (active_connection_id m),
     spec_budding = unat ` dom (map_of (budding_connections m))\<rparr>"

section \<open>Lemmas\<close>

lemma drop_handles [simp]:
  "spawned (fold drop_handle hs rt) = spawned rt"
  "aborted (fold drop_handle hs rt) = aborted rt @ map abort_task hs"
  by (induction hs arbitrary: rt) (simp_all add: drop_handle_def)

lemma cm_drop_simps [simp]:
  "cm_osk_handler (cm_drop hs m) = cm_osk_handler m" "cm_fanout (cm_drop hs m) = cm_fanout m"
  "next_connection_id (cm_drop hs m) = next_connection_id m"
  "active_connection (cm_drop hs m) = active_connection m"
  "budding_connections (cm_drop hs m) = budding_connections m" "cm_sink (cm_drop hs m) = cm_sink m"
  "spawned (cm_tasks (cm_drop hs m)) = spawned (cm_tasks m)"
  "aborted (cm_tasks (cm_drop hs m)) = aborted (cm_tasks m) @ map abort_task hs"
  by (simp_all add: cm_drop_def)

lemma manager_updates [simp]:
  "held (m\<lparr>cm_sink := w\<rparr>) = held m" "held (m\<lparr>next_connection_id := i\<rparr>) = held m"
  "active_connection_id (m\<lparr>cm_sink := w\<rparr>) = active_connection_id m"
  "active_connection_id (m\<lparr>next_connection_id := i\<rparr>) = active_connection_id m"
  by (auto simp: held_def active_connection_id_def split: option.splits)

lemma cm_core_updates [simp]:
  "cm_core (m\<lparr>cm_sink := w\<rparr>) = cm_core m" "cm_core (m\<lparr>next_connection_id := i\<rparr>) = cm_core m"
  by (simp_all add: cm_core_def)

lemma unat_of_nat_u64: "n < 2 ^ 64 \<Longrightarrow> unat (of_nat n :: u64) = n"
  by (simp add: unsigned_of_nat take_bit_nat_eq_self)

lemma unat_image_Diff: "unat ` (A - B) = unat ` A - unat ` (B :: u64 set)"
  by (rule image_set_diff) (rule injI, simp add: word_unat_eq_iff)

text \<open>Giving up handles: the connections outside \<open>K\<close> lose theirs and are aborted.\<close>

lemma cm_core_shrink:
  assumes "cm_core m"
    and "bt_invar (budding_connections m')"
    and "length (budding_connections m') \<le> MAX_BUDDING_CONNECTIONS"
    and "spawned (cm_tasks m') = spawned (cm_tasks m)" "cm_fanout m' = cm_fanout m"
    and "held m' = held m |` K"
    and "set (aborted (cm_tasks m')) = set (aborted (cm_tasks m)) \<union> unat ` (dom (held m) - K)"
    and "\<And>a i. active_connection_id m' = Some a \<Longrightarrow> i \<in> dom (map_of (budding_connections m')) \<Longrightarrow> a < i"
  shows "cm_core m'"
proof -
  have lt: "unat i < length (spawned (cm_tasks m))" if "i \<in> dom (held m)" for i
    using that assms(1) by (auto simp: cm_core_def)
  have "set (aborted (cm_tasks m')) = {..<length (spawned (cm_tasks m))} - unat ` (dom (held m) \<inter> K)"
  proof -
    have "unat ` (dom (held m) - K) = unat ` dom (held m) - unat ` (dom (held m) \<inter> K)"
      by (simp add: unat_image_Diff [symmetric]) (rule arg_cong [where f = "image unat"], blast)
    moreover have "set (aborted (cm_tasks m)) = {..<length (spawned (cm_tasks m))} - unat ` dom (held m)"
      using assms(1) by (simp add: cm_core_def)
    moreover have "unat ` dom (held m) \<subseteq> {..<length (spawned (cm_tasks m))}" using lt by auto
    moreover have "(N - H) \<union> (H - I) = N - I" if "I \<subseteq> H" "H \<subseteq> N" for N H I :: "nat set"
      using that by blast
    ultimately show ?thesis unfolding assms(7) by (simp add: image_mono)
  qed
  moreover have "abort_task h = unat i \<and> unat i < length (spawned (cm_tasks m))"
    if "held m' i = Some h" for i h
    using that assms(1) unfolding assms(6) cm_core_def by (auto simp: restrict_map_def split: if_splits)
  moreover have "length (spawned (cm_tasks m)) < 2 ^ 64 \<and> (\<forall>t < length (spawned (cm_tasks m)).
      task_connection (spawned (cm_tasks m) ! t) = of_nat t \<and> task_handler (spawned (cm_tasks m) ! t) = cm_fanout m)"
    using assms(1) by (simp add: cm_core_def)
  moreover have "dom (held m') = dom (held m) \<inter> K" by (simp add: assms(6))
  ultimately show ?thesis
    using assms(2,3,8) unfolding cm_core_def assms(4,5) by simp
qed

lemma cm_coreD:
  assumes "cm_core m"
  shows "bt_invar (budding_connections m)"
    and "length (budding_connections m) \<le> MAX_BUDDING_CONNECTIONS"
    and "held m i = Some h \<Longrightarrow> abort_task h = unat i \<and> unat i < length (spawned (cm_tasks m))"
    and "active_connection m = Some (a, h') \<Longrightarrow> map_of (budding_connections m) j = Some h'' \<Longrightarrow> a < j"
    and "active_connection m = Some (a, h') \<Longrightarrow> map_of (budding_connections m) a = None"
proof -
  show "bt_invar (budding_connections m)"
    and "length (budding_connections m) \<le> MAX_BUDDING_CONNECTIONS"
    and "held m i = Some h \<Longrightarrow> abort_task h = unat i \<and> unat i < length (spawned (cm_tasks m))"
    using assms by (auto simp: cm_core_def)
  show lt: "active_connection m = Some (a, h') \<Longrightarrow> map_of (budding_connections m) j = Some h'' \<Longrightarrow> a < j"
    for j h'' using assms by (auto simp: cm_core_def active_connection_id_def)
  show "active_connection m = Some (a, h') \<Longrightarrow> map_of (budding_connections m) a = None"
    using lt [of a] by (cases "map_of (budding_connections m) a") auto
qed

lemma held_budding:
  assumes "cm_core m" "map_of (budding_connections m) i = Some h"
  shows "held m i = Some h"
  using cm_coreD(4) [OF assms(1) _ assms(2)] assms(2)
  by (fastforce simp: held_def split: option.splits)

lemma held_active: "active_connection m = Some (a, h) \<Longrightarrow> held m a = Some h"
  by (simp add: held_def)

lemma dom_held: "dom (held m) = set_option (active_connection_id m) \<union> dom (map_of (budding_connections m))"
  by (auto simp: held_def active_connection_id_def split: option.splits)

text \<open>Removing one budding connection.\<close>

lemma drop_budding:
  assumes "cm_core m" "map_of (budding_connections m) i = Some h"
    and "bt_invar b" "map_of b = (map_of (budding_connections m))(i := None)"
  shows "cm_core (cm_drop [h] (m\<lparr>budding_connections := b\<rparr>))"
proof (rule cm_core_shrink [OF assms(1), where K = "- {i}"])
  have "card (dom (map_of b)) \<le> card (dom (map_of (budding_connections m)))"
    unfolding assms(4) by (rule card_mono) (auto simp: finite_dom_map_of)
  then show "length (budding_connections (cm_drop [h] (m\<lparr>budding_connections := b\<rparr>))) \<le> MAX_BUDDING_CONNECTIONS"
    using cm_coreD(1,2) [OF assms(1)] assms(3) by (simp add: length_bt)
  have "held m i = Some h" by (rule held_budding [OF assms(1,2)])
  then have "abort_task h = unat i" "dom (held m) - - {i} = {i}"
    using cm_coreD(3) [OF assms(1)] by auto
  then show "set (aborted (cm_tasks (cm_drop [h] (m\<lparr>budding_connections := b\<rparr>))))
      = set (aborted (cm_tasks m)) \<union> unat ` (dom (held m) - - {i})" by simp
  show "held (cm_drop [h] (m\<lparr>budding_connections := b\<rparr>)) = held m |` (- {i})"
    using cm_coreD(5) [OF assms(1)] assms(2,4)
    by (auto simp: held_def restrict_map_def fun_eq_iff split: option.splits)
  show "a < j" if "active_connection_id (cm_drop [h] (m\<lparr>budding_connections := b\<rparr>)) = Some a"
      "j \<in> dom (map_of (budding_connections (cm_drop [h] (m\<lparr>budding_connections := b\<rparr>))))" for a j
    using that cm_coreD(4) [OF assms(1)] assms(4)
    by (auto simp: active_connection_id_def split: if_splits)
qed (use assms in simp_all)

lemma drop_active:
  assumes "cm_core m" "active_connection m = Some (a, h)"
  shows "cm_core (cm_drop [h] (m\<lparr>active_connection := None\<rparr>))"
proof (rule cm_core_shrink [OF assms(1), where K = "- {a}"])
  have "abort_task h = unat a" "dom (held m) - - {a} = {a}"
    using held_active [OF assms(2)] cm_coreD(3) [OF assms(1)] by auto
  then show "set (aborted (cm_tasks (cm_drop [h] (m\<lparr>active_connection := None\<rparr>))))
      = set (aborted (cm_tasks m)) \<union> unat ` (dom (held m) - - {a})" by simp
  show "held (cm_drop [h] (m\<lparr>active_connection := None\<rparr>)) = held m |` (- {a})"
    using cm_coreD(5) [OF assms(1,2)] assms(2)
    by (auto simp: held_def restrict_map_def fun_eq_iff)
qed (use cm_coreD(1,2) [OF assms(1)] in \<open>simp_all add: active_connection_id_def\<close>)

lemma prune_oldest_core:
  assumes "cm_core m"
  obtains m' where "prune_oldest m = (Ok (), m')" "cm_core m'"
    "length (budding_connections m') < MAX_BUDDING_CONNECTIONS"
    "next_connection_id m' = next_connection_id m" "spawned (cm_tasks m') = spawned (cm_tasks m)"
    "active_connection m' = active_connection m" "cm_sink m' = cm_sink m"
    "cm_osk_handler m' = cm_osk_handler m" "cm_fanout m' = cm_fanout m"
    "dom (map_of (budding_connections m')) =
      (if MAX_BUDDING_CONNECTIONS \<le> card (dom (map_of (budding_connections m)))
       then dom (map_of (budding_connections m)) - {Min (dom (map_of (budding_connections m)))}
       else dom (map_of (budding_connections m)))"
proof (cases "MAX_BUDDING_CONNECTIONS \<le> length (budding_connections m)")
  case True
  let ?b = "budding_connections m"
  have inv: "bt_invar ?b" by (rule cm_coreD(1) [OF assms])
  have "0 < length ?b" using True by (auto simp: MAX_BUDDING_CONNECTIONS_def)
  then obtain i h b where b: "bt_pop_first ?b = (Some (i, h), b)" "map_of ?b i = Some h"
    "\<And>j. j \<in> dom (map_of ?b) \<Longrightarrow> i \<le> j" "map_of b = (map_of ?b)(i := None)" "bt_invar b"
    "length b = length ?b - 1" by (rule bt.pop_first_full [OF inv]) blast
  have "Min (dom (map_of ?b)) = i"
    by (rule Min_eqI) (use b(2,3) in \<open>auto simp: finite_dom_map_of\<close>)
  then have "dom (map_of b) = dom (map_of ?b) - {Min (dom (map_of ?b))}" using b(4) by auto
  moreover have "length b < MAX_BUDDING_CONNECTIONS"
    using b(6) cm_coreD(2) [OF assms] \<open>0 < length ?b\<close> by linarith
  ultimately show thesis using that [OF _ drop_budding [OF assms b(2,5,4)]] True b(1) inv
    by (simp add: prune_oldest_def length_bt)
next
  case False
  then show thesis using that [of m] assms cm_coreD(1) [OF assms]
    by (simp add: prune_oldest_def length_bt)
qed

lemma fresh_id:
  assumes "cm_core m" "length (spawned (cm_tasks m)) \<le> unat i"
  shows "held m i = None" and "map_of (budding_connections m) i = None"
proof -
  show h: "held m i = None"
    using cm_coreD(3) [OF assms(1), of i] assms(2) by (cases "held m i") auto
  show "map_of (budding_connections m) i = None"
    using held_budding [OF assms(1), of i] h by (cases "map_of (budding_connections m) i") auto
qed

lemma register_connection_fields:
  assumes core: "cm_core m" and i: "unat i = length (spawned (cm_tasks m))"
    and m': "m' = register_connection i stream m"
  shows "bt_invar (budding_connections m')"
    and "map_of (budding_connections m') =
           (map_of (budding_connections m))(i \<mapsto> abort_on_drop_handle_from (length (spawned (cm_tasks m))))"
    and "length (budding_connections m') = Suc (length (budding_connections m))"
    and "active_connection m' = active_connection m" and "next_connection_id m' = next_connection_id m"
    and "spawned (cm_tasks m') = spawned (cm_tasks m)
           @ [\<lparr>task_handler = cm_fanout m, task_connection = i, task_stream = stream\<rparr>]"
    and "aborted (cm_tasks m') = aborted (cm_tasks m)"
    and "cm_sink m' = cm_sink m" and "cm_osk_handler m' = cm_osk_handler m" and "cm_fanout m' = cm_fanout m"
proof -
  let ?h = "abort_on_drop_handle_from (length (spawned (cm_tasks m)))" and ?b = "budding_connections m"
  have none: "map_of ?b i = None" using fresh_id(2) [OF core] i by simp
  have inv: "bt_invar ?b" by (rule cm_coreD(1) [OF core])
  have eq: "m' = m\<lparr>cm_tasks := (cm_tasks m)\<lparr>spawned := spawned (cm_tasks m)
        @ [\<lparr>task_handler = cm_fanout m, task_connection = i, task_stream = stream\<rparr>]\<rparr>,
      budding_connections := bt_put i ?h ?b\<rparr>"
    using none by (simp add: m' register_connection_def fanout_spawn_def bt_insert_def cm_drop_def)
  show "length (budding_connections m') = Suc (length ?b)"
    using bt.len_insert [OF inv, of i ?h] none by (simp add: eq bt_insert_def domIff)
qed (use assms cm_coreD(1) [OF core] fresh_id(2) [OF core, of i] in
      \<open>simp_all add: m' register_connection_def fanout_spawn_def bt_insert_def bt_put_invar map_of_bt_put\<close>)

lemma register_connection_core:
  assumes core: "cm_core m" and room: "length (budding_connections m) < MAX_BUDDING_CONNECTIONS"
    and i: "unat i = length (spawned (cm_tasks m))" and bound: "Suc (length (spawned (cm_tasks m))) < 2 ^ 64"
    and m': "m' = register_connection i stream m"
  shows "cm_core m'"
proof -
  let ?n = "length (spawned (cm_tasks m))"
  note f = register_connection_fields [OF core i m']
  have held': "held m' = (held m)(i \<mapsto> abort_on_drop_handle_from ?n)"
    using fresh_id(1) [OF core, of i] i f(2,4) by (auto simp: held_def fun_eq_iff split: option.splits)
  have "abort_task h = unat j \<and> unat j < Suc ?n" if "held m' j = Some h" for j h
    using that cm_coreD(3) [OF core, of j h] i
    by (auto simp: held' abort_on_drop_handle_from_def split: if_splits)
  moreover have "set (aborted (cm_tasks m)) = {..<Suc ?n} - unat ` dom (held m')"
    using core i by (auto simp: held' cm_core_def lessThan_Suc)
  moreover have "a < j" if "active_connection_id m' = Some a" "j \<in> dom (map_of (budding_connections m'))" for a j
  proof -
    from that(1) f(4) obtain h where a: "active_connection m = Some (a, h)"
      by (auto simp: active_connection_id_def)
    show ?thesis
      using that(2) cm_coreD(3) [OF core held_active [OF a]] cm_coreD(4) [OF core a] i
      by (cases "j = i") (auto simp: f(2) word_less_nat_alt)
  qed
  moreover have "\<forall>t < Suc ?n. task_connection (spawned (cm_tasks m') ! t) = of_nat t
      \<and> task_handler (spawned (cm_tasks m') ! t) = cm_fanout m"
    using core i by (auto simp: f(6) cm_core_def nth_append less_Suc_eq word_unat_eq_iff unat_of_nat_u64)
  ultimately show ?thesis
    using f(1,3) room bound unfolding cm_core_def f(7,10) by (simp add: f(6))
qed

lemma removed_tasks:
  assumes "bt_invar r" "\<And>j h. map_of r j = Some h \<Longrightarrow> abort_task h = unat j"
  shows "abort_task ` set (map snd r) = unat ` dom (map_of r)"
proof -
  have "abort_task h = unat j" if "(j, h) \<in> set r" for j h
    using assms(2) [of j h] map_of_is_SomeI [OF bt_invar_distinct [OF assms(1)] that] by simp
  then show ?thesis by (force simp: dom_map_of_conv_image_fst image_iff)
qed

lemma bt_remove_absent: "map_of b k = None \<Longrightarrow> bt_remove k b = (None, b)"
  by (force simp: bt_remove_def map_of_eq_None_iff intro!: filter_True)

lemma on_osk_from_budding_absent:
  "map_of (budding_connections m) (osk_connection_id ev) = None \<Longrightarrow>
     on_osk_from_budding set_osk ev m = (Ok (), m)"
  by (simp add: on_osk_from_budding_def bt_remove_absent)

lemma on_osk_from_budding_present:
  assumes core: "cm_core m" and h: "map_of (budding_connections m) (osk_connection_id ev) = Some h"
    and res: "on_osk_from_budding set_osk ev m = (r, m')"
  obtains lo hi where
    "set_osk (cm_osk_handler m) (osk_event_key ev) (osk_event_reason ev) (cm_sink m) = (r, cm_sink m')"
    "active_connection m' = Some (osk_connection_id ev, h)" "budding_connections m' = hi"
    "map_of hi = map_of (budding_connections m) |` {osk_connection_id ev<..}" "bt_invar hi"
    "length hi \<le> length (budding_connections m)"
    "map_of lo = map_of (budding_connections m) |` {..<osk_connection_id ev}" "bt_invar lo"
    "aborted (cm_tasks m') = aborted (cm_tasks m)
       @ map abort_task ((case active_connection m of None \<Rightarrow> [] | Some (_, h) \<Rightarrow> [h]) @ map snd lo)"
    "spawned (cm_tasks m') = spawned (cm_tasks m)" "next_connection_id m' = next_connection_id m"
    "cm_osk_handler m' = cm_osk_handler m" "cm_fanout m' = cm_fanout m"
proof -
  let ?i = "osk_connection_id ev" and ?b = "budding_connections m"
  obtain b where b: "bt_remove ?i ?b = (Some h, b)" using h by (simp add: bt_remove_def)
  obtain lo hi where lh: "bt_split_off ?i b = (lo, hi)" by fastforce
  note p = bt.promote [OF cm_coreD(1) [OF core] b lh]
  obtain q w where w: "set_osk (cm_osk_handler m) (osk_event_key ev) (osk_event_reason ev) (cm_sink m) = (q, w)"
    by fastforce
  show thesis
    by (rule that [of hi lo]) (use res b lh w p in
        \<open>auto simp: on_osk_from_budding_def forward_osk_def cm_drop_def drop_handle_def split: option.splits\<close>)
qed

lemma on_osk_from_budding_core:
  assumes core: "cm_core m" and h: "map_of (budding_connections m) (osk_connection_id ev) = Some h"
    and res: "on_osk_from_budding set_osk ev m = (r, m')"
  shows "cm_core m'"
proof -
  let ?i = "osk_connection_id ev" and ?b = "budding_connections m"
  obtain lo hi where f: "active_connection m' = Some (?i, h)" "budding_connections m' = hi"
    "map_of hi = map_of ?b |` {?i<..}" "bt_invar hi" "length hi \<le> length ?b"
    "map_of lo = map_of ?b |` {..<?i}" "bt_invar lo"
    "aborted (cm_tasks m') = aborted (cm_tasks m)
       @ map abort_task ((case active_connection m of None \<Rightarrow> [] | Some (_, h) \<Rightarrow> [h]) @ map snd lo)"
    "spawned (cm_tasks m') = spawned (cm_tasks m)" "cm_fanout m' = cm_fanout m"
    by (rule on_osk_from_budding_present [OF assms])
  have older: "a < ?i" if "active_connection m = Some (a, g)" for a g
    by (rule cm_coreD(4) [OF core that h])
  have "abort_task g = unat j" if "map_of lo j = Some g" for j g
    using that cm_coreD(3) [OF core held_budding [OF core, of j g]]
    by (auto simp: f(6) restrict_map_def split: if_splits)
  then have lo: "abort_task ` set (map snd lo) = unat ` (dom (map_of ?b) \<inter> {..<?i})"
    using removed_tasks [OF f(7)] by (simp add: f(6))
  have "set (map abort_task (case active_connection m of None \<Rightarrow> [] | Some (_, h) \<Rightarrow> [h]))
      = unat ` set_option (active_connection_id m)"
    using cm_coreD(3) [OF core held_active]
    by (cases "active_connection m") (auto simp: active_connection_id_def)
  moreover have "dom (held m) - {?i..} = set_option (active_connection_id m) \<union> (dom (map_of ?b) \<inter> {..<?i})"
    using older by (auto simp: dom_held active_connection_id_def)
  ultimately have "set (aborted (cm_tasks m')) = set (aborted (cm_tasks m)) \<union> unat ` (dom (held m) - {?i..})"
    using lo by (simp add: f(8) image_Un Un_assoc image_image)
  moreover have "held m' = held m |` {?i..}"
    using older h by (auto simp: held_def f(1-3) restrict_map_def fun_eq_iff split: option.splits)
  moreover have "a < j" if "active_connection_id m' = Some a" "j \<in> dom (map_of (budding_connections m'))" for a j
    using that by (auto simp: active_connection_id_def f(1-3))
  ultimately show ?thesis
    using f(4,5,9,10) cm_coreD(2) [OF core] unfolding f(2) [symmetric]
    by (intro cm_core_shrink [OF core, of m' "{?i..}"]) auto
qed

section \<open>Refinement\<close>

lemma inj_unat: "inj_on unat (A :: u64 set)"
  by (rule inj_onI) (simp add: word_unat_eq_iff)

lemma unat_mem: "unat i \<in> unat ` (A :: u64 set) \<longleftrightarrow> i \<in> A"
  by (rule inj_on_image_mem_iff [OF inj_unat [of UNIV]]) auto

lemma unat_Min: "finite A \<Longrightarrow> A \<noteq> {} \<Longrightarrow> Min (unat ` A) = unat (Min (A :: u64 set))"
  by (rule mono_Min_commute [symmetric]) (auto simp: mono_def word_le_nat_alt)

lemma abs_active [simp]:
  "spec_active (abs_manager m) = Some (unat i) \<longleftrightarrow> active_connection_id m = Some i"
  by (auto simp: abs_manager_def word_unat_eq_iff)

lemma abs_budding [simp]:
  "unat i \<in> spec_budding (abs_manager m) \<longleftrightarrow> map_of (budding_connections m) i \<noteq> None"
  by (auto simp: abs_manager_def unat_mem domIff)

lemma abs_cm_drop [simp]: "abs_manager (cm_drop hs m) = abs_manager m"
  by (simp add: abs_manager_def active_connection_id_def)

lemma on_accept_refines:
  assumes inv: "cm_inv m" and bound: "Suc (length (spawned (cm_tasks m))) < 2 ^ 64"
    and res: "on_accept oc ev m = (r, m')"
  shows "r = Ok () \<and> cm_inv m' \<and> abs_manager m' = spec_accept (abs_manager m)
     \<and> cm_sink m' = cm_sink m \<and> cm_osk_handler m' = cm_osk_handler m
     \<and> length (spawned (cm_tasks m')) = Suc (length (spawned (cm_tasks m)))"
proof -
  let ?i = "next_connection_id m" and ?D = "dom (map_of (budding_connections m))"
  let ?m1 = "m\<lparr>next_connection_id := ?i + 1\<rparr>"
  have i: "unat ?i = length (spawned (cm_tasks m))" and core: "cm_core m"
    using inv by (auto simp: cm_inv_def)
  have nomax: "?i \<noteq> - 1" using i bound by (auto simp: unsigned_minus_1_eq_mask mask_eq_exp_minus_1)
  then have succ: "unat (?i + 1) = Suc (unat ?i)"
    by (metis Suc_eq_plus1 add.commute unatSuc add_eq_0_iff)
  have "cm_core ?m1" using core by simp
  then obtain m2 where m2: "prune_oldest ?m1 = (Ok (), m2)" "cm_core m2"
    "length (budding_connections m2) < MAX_BUDDING_CONNECTIONS"
    "next_connection_id m2 = ?i + 1" "spawned (cm_tasks m2) = spawned (cm_tasks m)"
    "active_connection m2 = active_connection m" "cm_sink m2 = cm_sink m"
    "cm_osk_handler m2 = cm_osk_handler m"
    "dom (map_of (budding_connections m2)) = (if MAX_BUDDING_CONNECTIONS \<le> card ?D then ?D - {Min ?D} else ?D)"
    by (rule prune_oldest_core) simp
  have m': "m' = register_connection ?i (accept_stream ev) m2" and r: "r = Ok ()"
    using res m2(1) nomax by (auto simp: on_accept_def allocate_connection_id_def Let_def)
  have i2: "unat ?i = length (spawned (cm_tasks m2))" using i m2(5) by simp
  note f = register_connection_fields [OF m2(2) i2 m']
  have "cm_inv m'"
    using register_connection_core [OF m2(2,3) i2 _ m'] bound f(5,6) m2(4,5) succ i
    by (simp add: cm_inv_def)
  moreover have "?D \<noteq> {}" if "MAX_BUDDING_CONNECTIONS \<le> card ?D"
    using that by (auto simp: MAX_BUDDING_CONNECTIONS_def)
  then have "abs_manager m' = spec_accept (abs_manager m)"
    using f(2,4,5) m2(4,6,9) succ
    by (auto simp: abs_manager_def spec_accept_def active_connection_id_def card_image [OF inj_unat]
        unat_Min finite_dom_map_of unat_image_Diff)
  ultimately show ?thesis using r f(6,8,9) m2(5,7,8) by simp
qed

lemma on_exit_refines:
  assumes inv: "cm_inv m" and res: "on_exit ev m = (r, m')"
  shows "r = Ok () \<and> cm_inv m' \<and> abs_manager m' = spec_exit (unat (exit_connection_id ev)) (abs_manager m)
     \<and> cm_sink m' = cm_sink m \<and> cm_osk_handler m' = cm_osk_handler m
     \<and> length (spawned (cm_tasks m')) = length (spawned (cm_tasks m))"
proof -
  let ?i = "exit_connection_id ev" and ?b = "budding_connections m"
  have core: "cm_core m" using inv by (simp add: cm_inv_def)
  consider (act) h where "active_connection m = Some (?i, h)"
    | (bud) h where "active_connection_id m \<noteq> Some ?i" "map_of ?b ?i = Some h"
    | (none) "active_connection_id m \<noteq> Some ?i" "map_of ?b ?i = None"
    by (cases "active_connection_id m = Some ?i"; cases "map_of ?b ?i") (auto simp: active_connection_id_def)
  then show ?thesis
  proof cases
    case act
    then show ?thesis using res inv drop_active [OF core act]
      by (auto simp: on_exit_def active_connection_id_def cm_inv_def abs_manager_def spec_exit_def)
  next
    case bud
    obtain b where b: "bt_remove ?i ?b = (Some h, b)" using bud(2) by (simp add: bt_remove_def)
    then have "map_of b = (map_of ?b)(?i := None)" "bt_invar b"
      using bt.remove_spec [OF cm_coreD(1) [OF core] b] by auto
    moreover from this have "abs_manager (m\<lparr>budding_connections := b\<rparr>) = spec_exit (unat ?i) (abs_manager m)"
      using bud(1) by (simp add: spec_exit_def)
        (simp add: abs_manager_def active_connection_id_def unat_image_Diff)
    moreover have "m' = cm_drop [h] (m\<lparr>budding_connections := b\<rparr>)" "r = Ok ()"
      using res bud(1) b by (auto simp: on_exit_def)
    ultimately show ?thesis using drop_budding [OF core bud(2)] inv by (simp add: cm_inv_def)
  next
    case none
    then have "m' = m" "r = Ok ()" using res by (auto simp: on_exit_def bt_remove_absent)
    moreover have "spec_budding (abs_manager m) - {unat ?i} = spec_budding (abs_manager m)"
      using none(2) by simp
    ultimately show ?thesis using none(1) inv by (simp add: spec_exit_def)
  qed
qed

lemma on_osk_event_refines:
  assumes inv: "cm_inv m" and res: "on_osk_event set_osk ev m = (r, m')"
  shows "cm_inv m' \<and> abs_manager m' = snd (spec_osk (unat (osk_connection_id ev)) (abs_manager m))
     \<and> (r, cm_sink m') = (if fst (spec_osk (unat (osk_connection_id ev)) (abs_manager m))
          then set_osk (cm_osk_handler m) (osk_event_key ev) (osk_event_reason ev) (cm_sink m)
          else (Ok (), cm_sink m))
     \<and> cm_osk_handler m' = cm_osk_handler m
     \<and> length (spawned (cm_tasks m')) = length (spawned (cm_tasks m))"
proof -
  let ?i = "osk_connection_id ev" and ?b = "budding_connections m"
  have core: "cm_core m" using inv by (simp add: cm_inv_def)
  consider (act) "active_connection_id m = Some ?i"
    | (bud) h where "active_connection_id m \<noteq> Some ?i" "map_of ?b ?i = Some h"
    | (none) "active_connection_id m \<noteq> Some ?i" "map_of ?b ?i = None"
    by (cases "map_of ?b ?i") auto
  then show ?thesis
  proof cases
    case act
    obtain q w where w: "set_osk (cm_osk_handler m) (osk_event_key ev) (osk_event_reason ev) (cm_sink m) = (q, w)"
      by fastforce
    have "m' = m\<lparr>cm_sink := w\<rparr>" "r = q"
      using res act w by (auto simp: on_osk_event_def on_osk_from_active_def forward_osk_def)
    moreover have "abs_manager (m\<lparr>cm_sink := w\<rparr>) = abs_manager m" by (simp add: abs_manager_def)
    ultimately show ?thesis using act w inv by (simp add: spec_osk_def cm_inv_def)
  next
    case bud
    have "\<not> ?i < a" if "active_connection_id m = Some a" for a
      using that cm_coreD(4) [OF core _ bud(2)] by (fastforce simp: active_connection_id_def)
    then have from_bud: "on_osk_from_budding set_osk ev m = (r, m')"
      using res bud(1) by (auto simp: on_osk_event_def split: option.splits if_splits)
    obtain lo hi where f:
      "set_osk (cm_osk_handler m) (osk_event_key ev) (osk_event_reason ev) (cm_sink m) = (r, cm_sink m')"
      "active_connection m' = Some (?i, h)" "budding_connections m' = hi" "map_of hi = map_of ?b |` {?i<..}"
      "spawned (cm_tasks m') = spawned (cm_tasks m)" "next_connection_id m' = next_connection_id m"
      "cm_osk_handler m' = cm_osk_handler m"
      by (rule on_osk_from_budding_present [OF core bud(2) from_bud])
    have "unat ` (dom (map_of ?b) \<inter> {?i<..}) = {j \<in> unat ` dom (map_of ?b). unat ?i < j}"
      by (auto simp: word_less_nat_alt)
    then have "abs_manager m' = snd (spec_osk (unat ?i) (abs_manager m))"
      using bud f(2-4,6) by (simp add: spec_osk_def) (simp add: abs_manager_def active_connection_id_def)
    moreover have "fst (spec_osk (unat ?i) (abs_manager m))" using bud by (simp add: spec_osk_def)
    ultimately show ?thesis
      using f on_osk_from_budding_core [OF core bud(2) from_bud] inv by (simp add: cm_inv_def)
  next
    case none
    then have "m' = m" "r = Ok ()"
      using res on_osk_from_budding_absent [of m ev set_osk]
      by (auto simp: on_osk_event_def on_osk_from_stale_def split: option.splits if_splits)
    with none inv show ?thesis by (simp add: spec_osk_def)
  qed
qed

lemma on_event_refines:
  assumes inv: "cm_inv m" and bound: "Suc (length (spawned (cm_tasks m))) < 2 ^ 64"
    and res: "on_event oc set_osk ev m = (r, m')"
  shows "cm_inv m' \<and> abs_manager m' = snd (spec_event ev (abs_manager m))
    \<and> (r, cm_sink m') = (case ev of
        Osk x \<Rightarrow> if fst (spec_event ev (abs_manager m))
                 then set_osk (cm_osk_handler m) (osk_event_key x) (osk_event_reason x) (cm_sink m)
                 else (Ok (), cm_sink m)
      | _ \<Rightarrow> (Ok (), cm_sink m))
    \<and> cm_osk_handler m' = cm_osk_handler m
    \<and> length (spawned (cm_tasks m')) \<le> Suc (length (spawned (cm_tasks m)))"
proof (cases ev)
  case (Accept x)
  then show ?thesis using res on_accept_refines [OF inv bound, of oc x r m']
    by (simp add: on_event_def spec_event_def)
next
  case (Exit x)
  then show ?thesis using res on_exit_refines [OF inv, of x r m']
    by (simp add: on_event_def spec_event_def)
next
  case (Osk x)
  then show ?thesis using res on_osk_event_refines [OF inv, of set_osk x r m']
    by (simp add: on_event_def spec_event_def)
qed

lemma cm_inv_new: "cm_inv (connection_manager_new params etsi h interval w)"
  by (simp add: cm_inv_def cm_core_def held_def connection_manager_new_def active_connection_id_def)

lemma manager_event_loop_inv:
  assumes "manager_event_loop oc set_osk xs m = res" "cm_inv m"
    and "length (spawned (cm_tasks m)) + length xs < 2 ^ 64"
  shows "cm_inv (loop_world res)"
  using assms
proof (induction xs arbitrary: m)
  case (Cons x xs)
  show ?case
  proof (cases "selected_event x")
    case (Ok ev)
    obtain r m1 where m1: "on_event oc set_osk ev m = (r, m1)" by fastforce
    have "Suc (length (spawned (cm_tasks m))) < 2 ^ 64" using Cons.prems(3) by simp
    note ref = on_event_refines [OF Cons.prems(2) this m1]
    show ?thesis
    proof (cases r)
      case (Ok u)
      then have "manager_event_loop oc set_osk xs m1 = res"
        using Cons.prems(1) \<open>selected_event x = outcome.Ok ev\<close> m1 by simp
      then show ?thesis using Cons.IH [of m1] ref Cons.prems(3) by simp
    qed (use Cons.prems(1) Ok m1 ref in auto)
  qed (use Cons.prems in auto)
qed auto

text \<open>The tasks that run on behalf of the manager.\<close>

definition live_tasks :: "('h, 's, 'e, 'w) connection_manager \<Rightarrow> nat set" where
  "live_tasks m = {..<length (spawned (cm_tasks m))} - set (aborted (cm_tasks m))"

lemma live_tasks_held:
  assumes "cm_inv m"
  shows "live_tasks m = unat ` dom (held m)"
proof -
  have "unat ` dom (held m) \<subseteq> {..<length (spawned (cm_tasks m))}"
    using assms cm_coreD(3) [of m] by (auto simp: cm_inv_def)
  then show ?thesis using assms by (auto simp: live_tasks_def cm_inv_def cm_core_def)
qed

lemma card_live_tasks:
  assumes "cm_inv m"
  shows "card (live_tasks m) \<le> Suc MAX_BUDDING_CONNECTIONS"
proof -
  have "card (dom (held m)) \<le> card (set_option (active_connection_id m)) + card (dom (map_of (budding_connections m)))"
    unfolding dom_held by (rule card_Un_le)
  also have "\<dots> \<le> 1 + MAX_BUDDING_CONNECTIONS"
    using assms length_bt [of "budding_connections m"]
    by (cases "active_connection_id m") (auto simp: cm_inv_def cm_core_def)
  finally show ?thesis by (simp add: live_tasks_held [OF assms] card_image [OF inj_unat])
qed

lemma dropped_manager_empty:
  assumes "cm_inv m"
  shows "live_tasks (drop_manager m) = {}"
proof -
  let ?hs = "(case active_connection m of None \<Rightarrow> [] | Some (_, h) \<Rightarrow> [h]) @ map snd (budding_connections m)"
  have core: "cm_core m" using assms by (simp add: cm_inv_def)
  have "abort_task ` set (map snd (budding_connections m)) = unat ` dom (map_of (budding_connections m))"
    using cm_coreD(3) [OF core held_budding [OF core]] by (intro removed_tasks cm_coreD(1) [OF core]) simp
  moreover have "set (map abort_task (case active_connection m of None \<Rightarrow> [] | Some (_, h) \<Rightarrow> [h]))
      = unat ` set_option (active_connection_id m)"
    using cm_coreD(3) [OF core held_active]
    by (cases "active_connection m") (auto simp: active_connection_id_def)
  ultimately have "abort_task ` set ?hs = unat ` dom (held m)"
    by (simp add: dom_held image_Un)
  moreover have "live_tasks (drop_manager m) = live_tasks m - abort_task ` set ?hs"
    unfolding live_tasks_def drop_manager_def cm_drop_simps by (simp add: Diff_Un Diff_Diff_Int set_diff_eq) blast
  ultimately show ?thesis using live_tasks_held [OF assms] by simp
qed

section \<open>Order of the installed keys\<close>

text \<open>
  A handler together with the list of the calls made of it, and the numbers of the
  connections whose events made the manager call its handler, one for every call.
\<close>

definition logged :: "('h, 'w) set_osk \<Rightarrow> ('h, 'w \<times> (key \<times> set_osk_reason) list) set_osk" where
  "logged set_osk h k r v = (let (res, w) = set_osk h k r (fst v) in (res, (w, snd v @ [(k, r)])))"

fun stream_event_connection :: "'s stream_event \<Rightarrow> nat" where
  "stream_event_connection (Accept ev) = 0"
| "stream_event_connection (Exit ev) = unat (exit_connection_id ev)"
| "stream_event_connection (Osk ev) = unat (osk_connection_id ev)"

fun installed_ids ::
  "bool \<Rightarrow> ('h, 'w) set_osk \<Rightarrow> 's stream_event list
     \<Rightarrow> ('h, 's, 'e, 'w \<times> (key \<times> set_osk_reason) list) connection_manager \<Rightarrow> nat list" where
  "installed_ids oc set_osk [] m = []"
| "installed_ids oc set_osk (ev # evs) m =
     (let (r, m') = on_event oc (logged set_osk) ev m
      in replicate (length (snd (cm_sink m')) - length (snd (cm_sink m))) (stream_event_connection ev)
         @ (case r of Ok _ \<Rightarrow> installed_ids oc set_osk evs m' | _ \<Rightarrow> []))"

text \<open>The calls of one event: its own key if the specification accepts it, else none.\<close>

lemma on_event_calls:
  assumes "cm_inv m" "Suc (length (spawned (cm_tasks m))) < 2 ^ 64"
    and "on_event oc (logged set_osk) ev m = (r, m')"
  shows "snd (cm_sink m') = snd (cm_sink m) @ (case ev of
      Osk x \<Rightarrow> if fst (spec_event ev (abs_manager m)) then [(osk_event_key x, osk_event_reason x)] else []
    | _ \<Rightarrow> [])"
  using on_event_refines [OF assms]
  by (auto simp: logged_def split: stream_event.splits if_splits prod.splits)

definition spec_floor :: "nat \<Rightarrow> spec_manager \<Rightarrow> bool" where
  "spec_floor l s \<longleftrightarrow> l \<le> spec_next s \<and> (\<forall>i. spec_active s = Some i \<longrightarrow> l \<le> i) \<and> (\<forall>i \<in> spec_budding s. l \<le> i)"

definition spec_ordered :: "spec_manager \<Rightarrow> bool" where
  "spec_ordered s \<longleftrightarrow> (\<forall>i \<in> spec_budding s. i < spec_next s)
     \<and> (\<forall>a. spec_active s = Some a \<longrightarrow> a < spec_next s \<and> (\<forall>i \<in> spec_budding s. a < i))"

lemma cm_inv_ordered:
  assumes "cm_inv m"
  shows "spec_ordered (abs_manager m)"
proof -
  have below: "unat i < unat (next_connection_id m)" if "i \<in> dom (held m)" for i
    using that assms cm_coreD(3) [of m i] by (auto simp: cm_inv_def)
  have older: "unat a < unat i"
    if "active_connection_id m = Some a" "i \<in> dom (map_of (budding_connections m))" for a i
    using that assms unfolding cm_inv_def cm_core_def by (simp add: word_less_nat_alt)
  have "\<forall>i \<in> spec_budding (abs_manager m). i < spec_next (abs_manager m)"
    using below by (fastforce simp: abs_manager_def dom_held)
  moreover have "a < spec_next (abs_manager m) \<and> (\<forall>i \<in> spec_budding (abs_manager m). a < i)"
    if "spec_active (abs_manager m) = Some a" for a
    using that below older by (fastforce simp: abs_manager_def dom_held)
  ultimately show ?thesis by (simp add: spec_ordered_def)
qed

lemma spec_event_floor:
  assumes "spec_ordered s" "spec_floor l s"
  shows "spec_floor l (snd (spec_event ev s))"
proof (cases ev)
  case (Accept x)
  then show ?thesis using assms(2) by (auto simp: spec_event_def spec_floor_def spec_accept_def)
next
  case (Exit x)
  then show ?thesis using assms(2) by (auto simp: spec_event_def spec_floor_def spec_exit_def)
next
  case (Osk x)
  then show ?thesis using assms(2) by (auto simp: spec_event_def spec_floor_def spec_osk_def)
qed

lemma spec_osk_raises_floor:
  assumes "spec_ordered s" "spec_floor l s" "fst (spec_osk i s)"
  shows "l \<le> i" and "spec_floor i (snd (spec_osk i s))"
  using assms by (auto simp: spec_osk_def spec_floor_def spec_ordered_def less_imp_le split: if_splits)

lemma installed_ids_sorted:
  assumes "cm_inv m" "length (spawned (cm_tasks m)) + length evs < 2 ^ 64" "spec_floor l (abs_manager m)"
  shows "sorted (installed_ids oc set_osk evs m) \<and> (\<forall>i \<in> set (installed_ids oc set_osk evs m). l \<le> i)"
  using assms
proof (induction evs arbitrary: m l)
  case (Cons ev evs)
  obtain r m1 where m1: "on_event oc (logged set_osk) ev m = (r, m1)" by fastforce
  have bound: "Suc (length (spawned (cm_tasks m))) < 2 ^ 64" using Cons.prems(2) by simp
  note ref = on_event_refines [OF Cons.prems(1) bound m1] and calls = on_event_calls [OF Cons.prems(1) bound m1]
  note flr = spec_event_floor [OF cm_inv_ordered [OF Cons.prems(1)] Cons.prems(3), of ev]
  have IH: "sorted (installed_ids oc set_osk evs m1) \<and> (\<forall>i \<in> set (installed_ids oc set_osk evs m1). k \<le> i)"
    if "spec_floor k (abs_manager m1)" for k
    using Cons.IH [OF conjunct1 [OF ref] _ that] ref Cons.prems(2) by simp
  show ?case
  proof (cases "\<exists>x. ev = Osk x \<and> fst (spec_event ev (abs_manager m))")
    case True
    then obtain x where x: "ev = Osk x" "fst (spec_event ev (abs_manager m))" by blast
    then have "l \<le> unat (osk_connection_id x)" "spec_floor (unat (osk_connection_id x)) (abs_manager m1)"
      using spec_osk_raises_floor [OF cm_inv_ordered [OF Cons.prems(1)] Cons.prems(3)] ref
      by (auto simp: spec_event_def)
    then show ?thesis using IH x m1 calls by (cases r) (auto intro: order_trans)
  next
    case False
    then have "snd (cm_sink m1) = snd (cm_sink m)" using calls by (auto split: stream_event.splits)
    then show ?thesis using IH [of l] flr m1 ref by (cases r) auto
  qed
qed simp

section \<open>Properties\<close>

text \<open>
  C7: the manager implements its specification on connection numbers. Every event
  keeps the invariant and moves the manager as \<open>spec_event\<close> says, and the
  handler of the output key is called exactly for the keys the specification
  accepts: those of the active connection and of budding ones, never those of a
  connection that has been superseded, pruned or closed.
\<close>

theorem manager_refines_spec:
  assumes "cm_inv m" and "Suc (length (spawned (cm_tasks m))) < 2 ^ 64"
    and "on_event overflow_checks set_osk ev m = (r, m')"
  shows "cm_inv m' \<and> abs_manager m' = snd (spec_event ev (abs_manager m))
    \<and> (r, cm_sink m') = (case ev of
        Osk x \<Rightarrow> if fst (spec_event ev (abs_manager m))
                 then set_osk (cm_osk_handler m) (osk_event_key x) (osk_event_reason x) (cm_sink m)
                 else (Ok (), cm_sink m)
      | _ \<Rightarrow> (Ok (), cm_sink m))"
  using on_event_refines [OF assms] by blast

text \<open>A handler that records its calls, and a manager that uses it.\<close>

definition recording_set_osk :: "(unit, (key \<times> set_osk_reason) list) set_osk" where
  "recording_set_osk h k r calls = (Ok (), calls @ [(k, r)])"

definition example_manager :: "(unit, unit, unit, (key \<times> set_osk_reason) list) connection_manager" where
  "example_manager = connection_manager_new example_params down_connection () 120 []"

definition example_osk :: "connection_id \<Rightarrow> unit stream_event" where
  "example_osk i = Osk \<lparr>osk_connection_id = i, osk_event_key = replicate 32 (ucast i), osk_event_reason = Fresh\<rparr>"

definition example_accept :: "unit stream_event" where
  "example_accept = Accept \<lparr>accept_stream = (), accept_addr = ''192.0.2.1:7000''\<rparr>"

theorem manager_refines_spec_witness:
  "\<exists>r m'. on_event True recording_set_osk (example_osk 3) example_manager = (r, m')
     \<and> cm_inv m' \<and> r = Ok () \<and> cm_sink m' = []"
proof -
  obtain r m' where m': "on_event True recording_set_osk (example_osk 3) example_manager = (r, m')"
    by fastforce
  have "cm_inv example_manager" unfolding example_manager_def by (rule cm_inv_new)
  moreover have "Suc (length (spawned (cm_tasks example_manager))) < 2 ^ 64"
    by (simp add: example_manager_def connection_manager_new_def)
  ultimately show ?thesis using manager_refines_spec [OF _ _ m'] m'
    by (auto simp: example_osk_def spec_event_def spec_osk_def abs_manager_def example_manager_def
        connection_manager_new_def active_connection_id_def)
qed

text \<open>
  C13: however many connections come in, the manager keeps at most 2001 tasks
  running: after any sequence of events (of fewer than \<open>2 ^ 64\<close>) the tasks that
  have not been aborted are exactly those of the connections it holds a handle
  for, the active one and at most 2000 budding ones.
\<close>

theorem manager_bounds_tasks:
  assumes "length xs < 2 ^ 64"
    and "manager_event_loop overflow_checks set_osk xs
           (connection_manager_new params etsi h interval w) = res"
  shows "live_tasks (loop_world res) = unat ` dom (held (loop_world res))
    \<and> card (live_tasks (loop_world res)) \<le> 2001
    \<and> length (budding_connections (loop_world res)) \<le> 2000"
proof -
  have inv: "cm_inv (loop_world res)"
    using assms by (intro manager_event_loop_inv [OF assms(2) cm_inv_new])
      (simp add: connection_manager_new_def)
  then show ?thesis using live_tasks_held [OF inv] card_live_tasks [OF inv]
    by (simp add: cm_inv_def cm_core_def MAX_BUDDING_CONNECTIONS_def)
qed

theorem manager_bounds_tasks_witness:
  "\<exists>m. manager_event_loop True recording_set_osk
        [Accepted \<lparr>accept_stream = (), accept_addr = ''192.0.2.1:7000''\<rparr>] example_manager = Running m
      \<and> live_tasks m = {0} \<and> card (live_tasks m) \<le> 2001"
proof -
  let ?xs = "[Accepted \<lparr>accept_stream = (), accept_addr = ''192.0.2.1:7000''\<rparr>] :: unit selected list"
  obtain m where m: "manager_event_loop True recording_set_osk ?xs example_manager = Running m"
    and "live_tasks m = {0}"
    by (simp add: selected_event_def on_event_def on_accept_def allocate_connection_id_def
        prune_oldest_def register_connection_def fanout_spawn_def bt_insert_def example_manager_def
        connection_manager_new_def cm_drop_def MAX_BUDDING_CONNECTIONS_def live_tasks_def lessThan_Suc)
  have "card (live_tasks m) \<le> 2001"
    using manager_bounds_tasks [of ?xs, OF _ m [unfolded example_manager_def]] by auto
  with m \<open>live_tasks m = {0}\<close> show ?thesis by blast
qed

text \<open>
  C12: keys are installed in the order of their connections. In the list of the calls
  that the manager makes of its output key handler, over any sequence of events and
  whatever the handler answers, the numbers of the connections that the calls are
  made for never decrease, so once a newer connection has delivered a key no older
  one ever replaces it.
\<close>

theorem keys_from_newer_connections:
  assumes "length evs < 2 ^ 64"
  shows "sorted (installed_ids overflow_checks set_osk evs
           (connection_manager_new params etsi h interval (w, [])))"
proof -
  have "spec_floor 0 s" for s by (simp add: spec_floor_def)
  then show ?thesis
    using installed_ids_sorted [OF cm_inv_new, of params etsi h interval "(w, [])" evs 0] assms
    by (simp add: connection_manager_new_def)
qed

theorem keys_from_newer_connections_witness:
  "installed_ids True recording_set_osk
      [example_accept, example_accept, example_osk 1, example_osk 0, example_osk 1]
      (connection_manager_new example_params down_connection () 120 ([], [])) = [1, 1]
   \<and> sorted (installed_ids True recording_set_osk
      [example_accept, example_accept, example_osk 1, example_osk 0, example_osk 1]
      (connection_manager_new example_params down_connection () 120 ([], [])))"
proof
  show "sorted (installed_ids True recording_set_osk
      [example_accept, example_accept, example_osk 1, example_osk 0, example_osk 1]
      (connection_manager_new example_params down_connection () 120 ([], [])))"
    by (rule keys_from_newer_connections) simp
qed (simp add: connection_manager_new_def example_accept_def example_osk_def logged_def
      on_event_def on_accept_def allocate_connection_id_def prune_oldest_def register_connection_def
      fanout_spawn_def bt_insert_def cm_drop_def MAX_BUDDING_CONNECTIONS_def
      active_connection_id_def on_osk_event_def on_osk_from_budding_def bt_remove_def
      bt_split_off_def forward_osk_def recording_set_osk_def on_osk_from_stale_def on_osk_from_active_def
      drop_handle_def abort_on_drop_handle_from_def)

end
