(* ===== verification/Tcp.thy ===== *)
theory Tcp
  imports Connection_Manager
begin

text \<open>
  \<open>net/tcp_client.rs\<close>, \<open>net/tcp_server/mod.rs\<close> and
  \<open>net/tcp_participant.rs\<close>: the client that keeps reconnecting, the server
  around the connection manager, and the choice between the two that the
  configuration makes.
\<close>

section \<open>The client\<close>

record ('h, 'e) daisyway_tcp_client =
  tcl_params :: daisyway_protocol_parameters
  endpoint :: string
  tcl_etsi_client :: "'e etsi014_connection"
  tcl_osk_handler :: 'h

definition daisyway_tcp_client_new ::
  "daisyway_protocol_parameters \<Rightarrow> string \<Rightarrow> 'e etsi014_connection \<Rightarrow> 'h \<Rightarrow> ('h, 'e) daisyway_tcp_client" where
  "daisyway_tcp_client_new params addr etsi h =
     \<lparr>tcl_params = params, endpoint = addr, tcl_etsi_client = etsi, tcl_osk_handler = h\<rparr>"

text \<open>What the client keeps across connections: key server, key target, time slept.\<close>

record ('e, 'w) client_world =
  client_etsi :: 'e
  client_osk :: 'w
  client_slept :: nat

definition leave_stream :: "('s, 'e, 'w) party_world \<Rightarrow> ('e, 'w) client_world" where
  "leave_stream w = \<lparr>client_etsi = etsi_of w, client_osk = osk_of w, client_slept = elapsed w\<rparr>"

definition enter_stream :: "'s \<Rightarrow> ('e, 'w) client_world \<Rightarrow> ('s, 'e, 'w) party_world" where
  "enter_stream s w = \<lparr>stream_of = s, etsi_of = client_etsi w, osk_of = client_osk w, elapsed = client_slept w\<rparr>"

text \<open>
  One attempt: \<open>connected\<close> is what connecting to the endpoint yields, \<open>rounds\<close>
  for how many key negotiations the connection is observed.
\<close>

definition event_loop_without_error_handling ::
  "('h, 'w) set_osk \<Rightarrow> 's crates \<Rightarrow> ('h, 'e) daisyway_tcp_client \<Rightarrow> 's outcome \<Rightarrow> nat
     \<Rightarrow> ('e, 'w) client_world \<Rightarrow> (unit outcome, ('e, 'w) client_world) loop_state" where
  "event_loop_without_error_handling set_osk C tc connected rounds w = (case connected of
       Ok stream \<Rightarrow>
         (case client_event_loop set_osk C
                 (daisyway_client_protocol_new (tcl_params tc) (tcl_etsi_client tc) (tcl_osk_handler tc))
                 rounds (enter_stream stream w) of
            Running w' \<Rightarrow> Running (leave_stream w')
          | Returned r w' \<Rightarrow> Returned r (leave_stream w'))
     | Err e \<Rightarrow> Returned (Err e) w
     | Panic m \<Rightarrow> Returned (Panic m) w)"

definition retry_sleep :: "('e, 'w) client_world \<Rightarrow> ('e, 'w) client_world" where
  "retry_sleep w = w\<lparr>client_slept := client_slept w + 2\<rparr>"

fun tcp_client_event_loop ::
  "('h, 'w) set_osk \<Rightarrow> 's crates \<Rightarrow> ('h, 'e) daisyway_tcp_client \<Rightarrow> ('s outcome \<times> nat) list
     \<Rightarrow> ('e, 'w) client_world \<Rightarrow> (unit outcome, ('e, 'w) client_world) loop_state" where
  "tcp_client_event_loop set_osk C tc [] w = Running w"
| "tcp_client_event_loop set_osk C tc ((connected, rounds) # attempts) w =
     (case event_loop_without_error_handling set_osk C tc connected rounds w of
        Running w' \<Rightarrow> Running w'
      | Returned (Panic m) w' \<Rightarrow> Returned (Panic m) w'
      | Returned _ w' \<Rightarrow> tcp_client_event_loop set_osk C tc attempts (retry_sleep w'))"

section \<open>The server\<close>

record ('h, 'e) daisyway_tcp_server =
  tsv_params :: daisyway_protocol_parameters
  listen_addr :: string
  tsv_etsi_client :: "'e etsi014_connection"
  tsv_osk_handler :: 'h
  tsv_rekey_interval :: u64

definition daisyway_tcp_server_new ::
  "daisyway_protocol_parameters \<Rightarrow> string \<Rightarrow> 'e etsi014_connection \<Rightarrow> 'h \<Rightarrow> u64
     \<Rightarrow> ('h, 'e) daisyway_tcp_server" where
  "daisyway_tcp_server_new params addr etsi h interval =
     \<lparr>tsv_params = params, listen_addr = addr, tsv_etsi_client = etsi, tsv_osk_handler = h,
      tsv_rekey_interval = interval\<rparr>"

text \<open>
  \<open>bind_listener\<close> stands for binding the listening socket; without it there is no
  manager. When the loop returns, the manager goes out of scope.
\<close>

definition tcp_server_event_loop ::
  "bool \<Rightarrow> ('h, 'w) set_osk \<Rightarrow> (string \<Rightarrow> unit outcome) \<Rightarrow> ('h, 'e) daisyway_tcp_server
     \<Rightarrow> 's selected list \<Rightarrow> 'w
     \<Rightarrow> (unit outcome, ('h, 's, 'e, 'w) connection_manager option) loop_state" where
  "tcp_server_event_loop overflow_checks set_osk bind_listener ts xs w =
     (case bind_listener (listen_addr ts) of
        Ok _ \<Rightarrow>
          (case manager_event_loop overflow_checks set_osk xs
                  (connection_manager_new (tsv_params ts) (tsv_etsi_client ts) (tsv_osk_handler ts)
                     (tsv_rekey_interval ts) w) of
             Running m \<Rightarrow> Running (Some m)
           | Returned r m \<Rightarrow> Returned r (Some (drop_manager m)))
      | Err e \<Rightarrow> Returned (Err e) None
      | Panic p \<Rightarrow> Returned (Panic p) None)"

section \<open>The participant\<close>

datatype daisyway_tcp_participant_config = Client_Config string | Server_Config string

datatype ('h, 'e) daisyway_tcp_participant =
    Client "('h, 'e) daisyway_tcp_client"
  | Server "('h, 'e) daisyway_tcp_server"

definition participant_from_config ::
  "daisyway_protocol_parameters \<Rightarrow> daisyway_tcp_participant_config \<Rightarrow> 'e etsi014_connection \<Rightarrow> 'h \<Rightarrow> u64
     \<Rightarrow> ('h, 'e) daisyway_tcp_participant" where
  "participant_from_config params config etsi h rekey_interval = (case config of
       Client_Config addr \<Rightarrow> Client (daisyway_tcp_client_new params addr etsi h)
     | Server_Config listen \<Rightarrow> Server (daisyway_tcp_server_new params listen etsi h rekey_interval))"

text \<open>The environment a participant runs in, and what is left of it.\<close>

datatype ('h, 's, 'e, 'w) participant_run =
    Client_Run "(unit outcome, ('e, 'w) client_world) loop_state"
  | Server_Run "(unit outcome, ('h, 's, 'e, 'w) connection_manager option) loop_state"

definition participant_event_loop ::
  "bool \<Rightarrow> ('h, 'w) set_osk \<Rightarrow> 's crates \<Rightarrow> (string \<Rightarrow> unit outcome) \<Rightarrow> ('h, 'e) daisyway_tcp_participant
     \<Rightarrow> ('s outcome \<times> nat) list \<Rightarrow> 's selected list \<Rightarrow> ('e, 'w) client_world
     \<Rightarrow> ('h, 's, 'e, 'w) participant_run" where
  "participant_event_loop overflow_checks set_osk C bind_listener p attempts xs w = (case p of
       Client c \<Rightarrow> Client_Run (tcp_client_event_loop set_osk C c attempts w)
     | Server s \<Rightarrow> Server_Run (tcp_server_event_loop overflow_checks set_osk bind_listener s xs (client_osk w)))"

section \<open>Lemmas\<close>

lemma client_event_loop_elapsed:
  "elapsed (loop_world (client_event_loop set_osk C cl n w)) = elapsed w"
proof (induction n arbitrary: w)
  case (Suc n)
  have "elapsed w' = elapsed w" if "client_round set_osk C cl w = (r, w')" for r w'
    using that by (auto simp: client_round_def wait_for_key_negotiation_def bind_st_def Let_def
        split: prod.splits outcome.splits)
  then show ?case using Suc by (auto split: prod.splits outcome.splits)
qed simp

lemma attempt_slept:
  "client_slept (loop_world (event_loop_without_error_handling set_osk C tc connected rounds w)) = client_slept w"
proof (cases connected)
  case (Ok s)
  let ?cl = "daisyway_client_protocol_new (tcl_params tc) (tcl_etsi_client tc) (tcl_osk_handler tc)"
  show ?thesis using client_event_loop_elapsed [of set_osk C ?cl rounds "enter_stream s w"] Ok
    by (auto simp: event_loop_without_error_handling_def leave_stream_def enter_stream_def
        split: loop_state.splits)
qed (simp_all add: event_loop_without_error_handling_def)

fun refused :: "'s outcome \<times> nat \<Rightarrow> bool" where
  "refused (Err e, n) \<longleftrightarrow> True"
| "refused _ \<longleftrightarrow> False"

lemma refused_attempts:
  "list_all refused xs \<Longrightarrow> tcp_client_event_loop set_osk C tc (xs @ attempts) w
     = tcp_client_event_loop set_osk C tc attempts (w\<lparr>client_slept := client_slept w + 2 * length xs\<rparr>)"
proof (induction xs arbitrary: w)
  case (Cons x xs)
  obtain e n where "x = (Err e, n)" using Cons.prems by (cases x rule: refused.cases) auto
  with Cons show ?case
    by (simp add: event_loop_without_error_handling_def retry_sleep_def)
qed simp

section \<open>Properties\<close>

text \<open>
  C21: the client never gives up. Whatever connecting and negotiating yields, its
  loop does not return except by a panic; an attempt that ends in an error is
  followed by the next one, two seconds later, in the world it left; and however
  many connections are refused, the loop goes on with the next attempt as if it had
  only slept two seconds for each.
\<close>

theorem client_keeps_retrying:
  "(tcp_client_event_loop set_osk C tc attempts w = Returned r w' \<longrightarrow> is_Panic r)
    \<and> (event_loop_without_error_handling set_osk C tc connected rounds w = Returned (Err e) w1 \<longrightarrow>
         tcp_client_event_loop set_osk C tc ((connected, rounds) # attempts) w
           = tcp_client_event_loop set_osk C tc attempts (w1\<lparr>client_slept := client_slept w + 2\<rparr>))
    \<and> (list_all refused xs \<longrightarrow>
         tcp_client_event_loop set_osk C tc (xs @ attempts) w
           = tcp_client_event_loop set_osk C tc attempts (w\<lparr>client_slept := client_slept w + 2 * length xs\<rparr>))"
proof (intro conjI)
  show "tcp_client_event_loop set_osk C tc attempts w = Returned r w' \<longrightarrow> is_Panic r"
    by (induction attempts arbitrary: w) (auto split: loop_state.splits outcome.splits)
  show "event_loop_without_error_handling set_osk C tc connected rounds w = Returned (Err e) w1 \<longrightarrow>
         tcp_client_event_loop set_osk C tc ((connected, rounds) # attempts) w
           = tcp_client_event_loop set_osk C tc attempts (w1\<lparr>client_slept := client_slept w + 2\<rparr>)"
    using attempt_slept [of set_osk C tc connected rounds w] by (auto simp: retry_sleep_def)
qed (use refused_attempts in blast)

theorem client_keeps_retrying_witness:
  "tcp_client_event_loop (recording_set_osk) no_stream
      (daisyway_tcp_client_new example_params ''192.0.2.1:7000'' down_connection ())
      [(Err (Io (Other_io 111)), 5), (Err (Io (Other_io 113)), 5), (Ok (), 0)]
      \<lparr>client_etsi = (), client_osk = [], client_slept = 0\<rparr>
    = Running \<lparr>client_etsi = (), client_osk = [], client_slept = 4\<rparr>"
proof -
  let ?tc = "daisyway_tcp_client_new example_params ''192.0.2.1:7000'' down_connection ()"
  let ?w = "\<lparr>client_etsi = (), client_osk = [], client_slept = 0\<rparr>"
  let ?xs = "[(Err (Io (Other_io 111)), 5), (Err (Io (Other_io 113)), 5)] :: (unit outcome \<times> nat) list"
  have "tcp_client_event_loop recording_set_osk no_stream ?tc (?xs @ [(Ok (), 0)]) ?w
      = tcp_client_event_loop recording_set_osk no_stream ?tc [(Ok (), 0)] (?w\<lparr>client_slept := 4\<rparr>)"
    using client_keeps_retrying [of recording_set_osk no_stream ?tc "[(Ok (), 0)]" ?w _ _ _ _ _ _ ?xs]
    by (simp del: tcp_client_event_loop.simps)
  then show ?thesis
    by (simp add: event_loop_without_error_handling_def leave_stream_def enter_stream_def)
qed

text \<open>
  C19: the server's loop ends with an error or a panic only, and it leaves no
  connection task behind: every task its manager had started has been aborted.
\<close>

theorem server_stops_clean:
  assumes "length xs < 2 ^ 64"
    and "tcp_server_event_loop overflow_checks set_osk bind_listener ts xs w = Returned r left"
  shows "\<not> is_Ok r \<and> (\<forall>m. left = Some m \<longrightarrow> live_tasks m = {})"
proof -
  let ?m0 = "connection_manager_new (tsv_params ts) (tsv_etsi_client ts) (tsv_osk_handler ts)
      (tsv_rekey_interval ts) w"
  have fails: "\<not> is_Ok r" if "manager_event_loop overflow_checks set_osk xs m = Returned r m'" for r m m'
    using that by (induction xs arbitrary: m) (auto split: prod.splits outcome.splits)
  have inv: "cm_inv m" if "manager_event_loop overflow_checks set_osk xs ?m0 = Returned r m" for r m
    using manager_event_loop_inv [OF that cm_inv_new] assms(1) by (simp add: connection_manager_new_def)
  show ?thesis
  proof (cases "bind_listener (listen_addr ts)")
    case (Ok u)
    then obtain m where m: "manager_event_loop overflow_checks set_osk xs ?m0 = Returned r m"
      and "left = Some (drop_manager m)"
      using assms(2) by (auto simp: tcp_server_event_loop_def split: loop_state.splits)
    then show ?thesis using fails [OF m] dropped_manager_empty [OF inv [OF m]] by simp
  next
    case (Err e)
    then have "r = outcome.Err e" "left = None" using assms(2) by (simp_all add: tcp_server_event_loop_def)
    then show ?thesis by simp
  next
    case (Panic p)
    then have "r = outcome.Panic p" "left = None" using assms(2) by (simp_all add: tcp_server_event_loop_def)
    then show ?thesis by simp
  qed
qed

theorem server_stops_clean_witness:
  "\<exists>r m. tcp_server_event_loop True recording_set_osk (\<lambda>a. Ok ())
        (daisyway_tcp_server_new example_params ''[::]:7000'' down_connection () 120)
        [Accepted \<lparr>accept_stream = (), accept_addr = ''192.0.2.1:7000''\<rparr>, Accept_Failed (Io (Other_io 24))] []
      = Returned r (Some m) \<and> r = Err (Io (Other_io 24)) \<and> live_tasks m = {}"
proof -
  let ?ts = "daisyway_tcp_server_new example_params ''[::]:7000'' down_connection () 120"
  let ?xs = "[Accepted \<lparr>accept_stream = (), accept_addr = ''192.0.2.1:7000''\<rparr>, Accept_Failed (Io (Other_io 24))]
      :: unit selected list"
  obtain m where m: "tcp_server_event_loop True recording_set_osk (\<lambda>a. Ok ()) ?ts ?xs []
      = Returned (Err (Io (Other_io 24))) (Some m)"
    by (simp add: tcp_server_event_loop_def selected_event_def on_event_def on_accept_def
        allocate_connection_id_def prune_oldest_def connection_manager_new_def daisyway_tcp_server_new_def
        MAX_BUDDING_CONNECTIONS_def)
  with server_stops_clean [OF _ m] show ?thesis by simp
qed

end
