(* ===== verification/Deadman.thy ===== *)
theory Deadman
  imports Osk Mpsc
begin

text \<open>
  \<open>internal/osk/deadman.rs\<close>: the worker that erases the output key when no new
  one arrives in time. The body of its loop is a definition over the result of
  waiting for a request; the loop is run over the list of these results, and a
  step relation adds the clock. The worker relies on its broker through the locale
  \<open>osk_sink\<close>. Timers are taken to fire on time and calls of the broker to take
  no time. A deadline that the clock cannot represent panics the worker.
\<close>

section \<open>The handle\<close>

datatype deadman_request = SetOsk key set_osk_reason

record 'c osk_deadman =
  deadman_client :: 'c

definition deadman_set_osk ::
  "(deadman_request, 'c) mpsc_send \<Rightarrow> 'c osk_deadman \<Rightarrow> key \<Rightarrow> set_osk_reason
     \<Rightarrow> unit outcome \<times> 'c osk_deadman" where
  "deadman_set_osk send d k reason =
     (let (res, c) = send (SetOsk k reason) (deadman_client d) in
      (bind_outcome res (\<lambda>_. Ok ()), d\<lparr>deadman_client := c\<rparr>))"

section \<open>The worker\<close>

text \<open>
  The sender that starting a worker returns and the receiver of the worker are the
  two ends of one channel, kept in the worker's record. The broker is made on the
  worker's own thread.
\<close>

record 'h deadman_worker =
  deadman_broker :: 'h
  worker_erase_after :: u64
  worker_requests :: "deadman_request channel"

definition REQUEST_CAPACITY :: nat where
  "REQUEST_CAPACITY = 8"

definition deadman_worker_start :: "u64 \<Rightarrow> (unit \<Rightarrow> 'h) \<Rightarrow> 'h deadman_worker" where
  "deadman_worker_start erase_after make_broker = \<lparr>deadman_broker = make_broker (),
     worker_erase_after = erase_after, worker_requests = open_channel\<rparr>"

definition osk_deadman_start ::
  "u64 \<Rightarrow> (unit \<Rightarrow> 'h) \<Rightarrow> deadman_request channel osk_deadman \<times> 'h deadman_worker" where
  "osk_deadman_start erase_after make_broker =
     (let worker = deadman_worker_start erase_after make_broker
      in (\<lparr>deadman_client = worker_requests worker\<rparr>, worker))"

text \<open>
  The result of \<open>timeout_at(next_erase, self.requests.recv())\<close>: a request, the
  end of the channel, or the deadline. There is no wait at all when the sum
  \<open>Instant::now() + self.erase_after\<close> before it is not a representable instant.
\<close>

datatype recv_result = Received deadman_request | Closed | Timeout | Deadline_Overflow

text \<open>The seconds that an \<open>Instant\<close> of the standard library can hold (an \<open>i64\<close> on Linux).\<close>

definition INSTANT_LIMIT :: nat where
  "INSTANT_LIMIT = 2 ^ 63"

definition OVERFLOW_MESSAGE :: string where
  "OVERFLOW_MESSAGE = ''overflow when adding duration to instant''"

text \<open>One iteration; the boolean is whether the loop goes on.\<close>

definition deadman_iteration ::
  "('h, 'w) set_osk \<Rightarrow> 'h \<Rightarrow> key \<Rightarrow> recv_result \<Rightarrow> 'w \<Rightarrow> bool outcome \<times> 'w" where
  "deadman_iteration set_osk broker random_key req w = (case req of
       Received (SetOsk k reason) \<Rightarrow> bind_st (set_osk broker k reason w) (\<lambda>_ w. (Ok True, w))
     | Closed \<Rightarrow> bind_st (erase_stale_osk set_osk random_key broker w) (\<lambda>_ w. (Ok False, w))
     | Timeout \<Rightarrow> bind_st (erase_stale_osk set_osk random_key broker w) (\<lambda>_ w. (Ok True, w))
     | Deadline_Overflow \<Rightarrow> (Panic OVERFLOW_MESSAGE, w))"

fun deadman_loop ::
  "('h, 'w) set_osk \<Rightarrow> 'h \<Rightarrow> (recv_result \<times> key) list \<Rightarrow> 'w \<Rightarrow> (unit outcome, 'w) loop_state" where
  "deadman_loop set_osk broker [] w = Running w"
| "deadman_loop set_osk broker ((req, rnd) # reqs) w =
     (case deadman_iteration set_osk broker rnd req w of
        (Ok True, w') \<Rightarrow> deadman_loop set_osk broker reqs w'
      | (Ok False, w') \<Rightarrow> Returned (Ok ()) w'
      | (Err e, w') \<Rightarrow> Returned (Err e) w'
      | (Panic m, w') \<Rightarrow> Returned (Panic m) w')"

definition deadman_event_loop ::
  "('h, 'w) set_osk \<Rightarrow> 'h \<Rightarrow> key \<Rightarrow> (recv_result \<times> key) list \<Rightarrow> 'w
     \<Rightarrow> (unit outcome, 'w) loop_state" where
  "deadman_event_loop set_osk broker rnd reqs w =
     (case erase_stale_osk set_osk rnd broker w of
        (Ok _, w') \<Rightarrow> deadman_loop set_osk broker reqs w'
      | (Err e, w') \<Rightarrow> Returned (Err e) w'
      | (Panic m, w') \<Rightarrow> Returned (Panic m) w')"

text \<open>
  \<open>thread_run\<close> and the thread of \<open>start\<close>: building the runtime may fail, and
  an error that leaves the loop panics the thread.
\<close>

definition deadman_thread ::
  "unit outcome \<Rightarrow> ('h, 'w) set_osk \<Rightarrow> 'h \<Rightarrow> key \<Rightarrow> (recv_result \<times> key) list \<Rightarrow> 'w
     \<Rightarrow> (unit outcome, 'w) loop_state" where
  "deadman_thread runtime set_osk broker rnd reqs w =
     (let res = (case runtime of Ok _ \<Rightarrow> deadman_event_loop set_osk broker rnd reqs w
                 | Err e \<Rightarrow> Returned (Err e) w | Panic m \<Rightarrow> Returned (Panic m) w)
      in (case res of Returned (Err e) w' \<Rightarrow> Returned (Panic ''Error in output key worker thread: {e:?}'') w'
          | _ \<Rightarrow> res))"

section \<open>The worker in time\<close>

text \<open>
  The state of the running worker: clock, deadline, the broker's world, how it
  ended if it did, and the time, reason and key of the last successful call.
\<close>

record 'w dm_state =
  clock :: nat
  next_erase :: nat
  sink :: 'w
  ended :: "unit outcome option"
  set_time :: nat
  set_reason :: set_osk_reason
  set_key :: key

definition dm_record :: "nat \<Rightarrow> key \<Rightarrow> set_osk_reason \<Rightarrow> 'w \<Rightarrow> 'w dm_state \<Rightarrow> 'w dm_state" where
  "dm_record erase_after k reason w s = s\<lparr>sink := w, next_erase := clock s + erase_after,
     set_time := clock s, set_reason := reason, set_key := k\<rparr>"

text \<open>A wait that hands the worker whole keys only, and a whole random key for an erasure.\<close>

fun wait_ok :: "recv_result \<times> key \<Rightarrow> bool" where
  "wait_ok (Received (SetOsk k reason), rnd) \<longleftrightarrow> is_key k \<and> is_key rnd"
| "wait_ok (_, rnd) \<longleftrightarrow> is_key rnd"

text \<open>
  How the wait of a running worker can end now: its deadline was not representable, or
  it was, and then the wait times out at the deadline and not before.
\<close>

definition wait_ends :: "'w dm_state \<Rightarrow> recv_result \<Rightarrow> bool" where
  "wait_ends s req \<longleftrightarrow> ended s = None \<and> (req = Deadline_Overflow \<longleftrightarrow> INSTANT_LIMIT \<le> next_erase s)
     \<and> (req = Timeout \<longrightarrow> clock s = next_erase s)"

inductive dm_step :: "('h, 'w) set_osk \<Rightarrow> 'h \<Rightarrow> nat \<Rightarrow> 'w dm_state \<Rightarrow> 'w dm_state \<Rightarrow> bool"
  for set_osk broker erase_after where
  wait: "ended s = None \<Longrightarrow> next_erase s < INSTANT_LIMIT \<Longrightarrow> clock s < t \<Longrightarrow> t \<le> next_erase s \<Longrightarrow>
    dm_step set_osk broker erase_after s (s\<lparr>clock := t\<rparr>)"
| request: "wait_ends s (Received (SetOsk k reason)) \<Longrightarrow> is_key k \<Longrightarrow> is_key rnd \<Longrightarrow>
    deadman_iteration set_osk broker rnd (Received (SetOsk k reason)) (sink s) = (Ok True, w) \<Longrightarrow>
    dm_step set_osk broker erase_after s (dm_record erase_after k reason w s)"
| expire: "wait_ends s Timeout \<Longrightarrow> is_key rnd \<Longrightarrow>
    deadman_iteration set_osk broker rnd Timeout (sink s) = (Ok True, w) \<Longrightarrow>
    dm_step set_osk broker erase_after s (dm_record erase_after rnd Stale w s)"
| close: "wait_ends s Closed \<Longrightarrow> is_key rnd \<Longrightarrow>
    deadman_iteration set_osk broker rnd Closed (sink s) = (Ok False, w) \<Longrightarrow>
    dm_step set_osk broker erase_after s
      (dm_record erase_after rnd Stale w s\<lparr>ended := Some (Ok ())\<rparr>)"
| fail: "wait_ends s req \<Longrightarrow> wait_ok (req, rnd) \<Longrightarrow>
    deadman_iteration set_osk broker rnd req (sink s) = (Err e, w) \<Longrightarrow>
    dm_step set_osk broker erase_after s (s\<lparr>sink := w, ended := Some (Err e)\<rparr>)"
| crash: "wait_ends s req \<Longrightarrow> wait_ok (req, rnd) \<Longrightarrow>
    deadman_iteration set_osk broker rnd req (sink s) = (Panic m, w) \<Longrightarrow>
    dm_step set_osk broker erase_after s (s\<lparr>sink := w, ended := Some (Panic m)\<rparr>)"

inductive dm_reach :: "('h, 'w) set_osk \<Rightarrow> 'h \<Rightarrow> nat \<Rightarrow> 'w \<Rightarrow> 'w dm_state \<Rightarrow> bool"
  for set_osk broker erase_after w0 where
  start: "is_key rnd \<Longrightarrow> erase_stale_osk set_osk rnd broker w0 = (Ok (), w) \<Longrightarrow>
    dm_reach set_osk broker erase_after w0 \<lparr>clock = t0, next_erase = t0 + erase_after, sink = w,
      ended = None, set_time = t0, set_reason = Stale, set_key = rnd\<rparr>"
| start_fails: "is_key rnd \<Longrightarrow> erase_stale_osk set_osk rnd broker w0 = (r, w) \<Longrightarrow> \<not> is_Ok r \<Longrightarrow>
    dm_reach set_osk broker erase_after w0 \<lparr>clock = t0, next_erase = t0 + erase_after, sink = w,
      ended = Some r, set_time = t0, set_reason = Stale, set_key = rnd\<rparr>"
| step: "dm_reach set_osk broker erase_after w0 s \<Longrightarrow> dm_step set_osk broker erase_after s s' \<Longrightarrow>
    dm_reach set_osk broker erase_after w0 s'"

inductive_cases dm_stepE: "dm_step set_osk broker erase_after s s'"

text \<open>A state of the worker as a state of its loop.\<close>

definition dm_result :: "'w dm_state \<Rightarrow> (unit outcome, 'w) loop_state" where
  "dm_result s = (case ended s of None \<Rightarrow> Running (sink s) | Some r \<Rightarrow> Returned r (sink s))"

section \<open>Lemmas\<close>

lemma deadman_iteration_Ok:
  "deadman_iteration set_osk b rnd req w = (Ok c, w') \<longleftrightarrow>
     (case req of
        Received (SetOsk k r) \<Rightarrow> c \<and> set_osk b k r w = (Ok (), w')
      | Closed \<Rightarrow> \<not> c \<and> set_osk b rnd Stale w = (Ok (), w')
      | Timeout \<Rightarrow> c \<and> set_osk b rnd Stale w = (Ok (), w')
      | Deadline_Overflow \<Rightarrow> False)"
  by (auto simp: deadman_iteration_def erase_stale_osk_def outcome_inv
      split: recv_result.splits deadman_request.splits)

text \<open>The call of the broker that follows a wait.\<close>

fun broker_call :: "recv_result \<Rightarrow> key \<Rightarrow> (key \<times> set_osk_reason) option" where
  "broker_call (Received (SetOsk k reason)) rnd = Some (k, reason)"
| "broker_call Closed rnd = Some (rnd, Stale)"
| "broker_call Timeout rnd = Some (rnd, Stale)"
| "broker_call Deadline_Overflow rnd = None"

lemma deadman_iteration_Err:
  "broker_call req rnd = Some (k, r) \<Longrightarrow> set_osk b k r w = (Err e, w') \<Longrightarrow>
   deadman_iteration set_osk b rnd req w = (Err e, w')"
  by (cases "(req, rnd)" rule: broker_call.cases)
    (auto simp: deadman_iteration_def erase_stale_osk_def bind_st_def)

lemma deadman_loop_append:
  "deadman_loop set_osk b xs w = Running w' \<Longrightarrow>
   deadman_loop set_osk b (xs @ ys) w = deadman_loop set_osk b ys w'"
  by (induction set_osk b xs w rule: deadman_loop.induct) (auto split: prod.splits outcome.splits bool.splits)

lemma deadman_event_loop_append:
  "deadman_event_loop set_osk b rnd xs w = Running w' \<Longrightarrow>
   deadman_event_loop set_osk b rnd (xs @ ys) w = deadman_loop set_osk b ys w'"
  by (auto simp: deadman_event_loop_def deadman_loop_append split: prod.splits outcome.splits)

lemma dm_step_loop:
  "dm_step set_osk b T s s' \<Longrightarrow>
   \<exists>reqs. list_all wait_ok reqs \<and> deadman_loop set_osk b reqs (sink s) = dm_result s'"
proof (induction rule: dm_step.induct)
  case (wait s t)
  then show ?case by (intro exI [of _ "[]"]) (simp add: dm_result_def)
next
  case (request s k reason rnd w)
  then show ?case
    by (intro exI [of _ "[(Received (SetOsk k reason), rnd)]"]) (simp add: dm_result_def dm_record_def wait_ends_def)
next
  case (expire s rnd w)
  then show ?case by (intro exI [of _ "[(Timeout, rnd)]"]) (simp add: dm_result_def dm_record_def wait_ends_def)
next
  case (close s rnd w)
  then show ?case by (intro exI [of _ "[(Closed, rnd)]"]) (simp add: dm_result_def dm_record_def wait_ends_def)
next
  case (fail s req rnd e w)
  then show ?case by (intro exI [of _ "[(req, rnd)]"]) (simp add: dm_result_def)
next
  case (crash s req rnd m w)
  then show ?case by (intro exI [of _ "[(req, rnd)]"]) (simp add: dm_result_def)
qed

lemma dm_step_running: "dm_step set_osk b T s s' \<Longrightarrow> ended s = None"
  by (elim dm_stepE) (auto simp: wait_ends_def)

lemma dm_reach_loop:
  "dm_reach set_osk b T w0 s \<Longrightarrow>
   \<exists>rnd reqs. is_key rnd \<and> list_all wait_ok reqs \<and> deadman_event_loop set_osk b rnd reqs w0 = dm_result s"
proof (induction rule: dm_reach.induct)
  case (start rnd w t0)
  then show ?case
    by (intro exI [of _ rnd] exI [of _ "[]"]) (simp add: deadman_event_loop_def dm_result_def)
next
  case (start_fails rnd r w t0)
  then show ?case
    by (intro exI [of _ rnd] exI [of _ "[]"]) (cases r; simp add: deadman_event_loop_def dm_result_def)
next
  case (step s s')
  then obtain rnd reqs where "is_key rnd" "list_all wait_ok reqs"
    "deadman_event_loop set_osk b rnd reqs w0 = Running (sink s)"
    by (auto simp: dm_result_def dm_step_running)
  moreover obtain qs where "list_all wait_ok qs" "deadman_loop set_osk b qs (sink s) = dm_result s'"
    using dm_step_loop [OF step.hyps(2)] by blast
  ultimately show ?case
    by (intro exI [of _ rnd] exI [of _ "reqs @ qs"]) (simp add: deadman_event_loop_append)
qed

text \<open>A lifetime beyond the clock's range leaves the worker one step, its panic.\<close>

lemma dm_step_overflow:
  "dm_step set_osk b T s s' \<Longrightarrow> INSTANT_LIMIT \<le> next_erase s \<Longrightarrow>
   s' = s\<lparr>ended := Some (Panic OVERFLOW_MESSAGE)\<rparr>"
  by (elim dm_stepE) (auto simp: wait_ends_def deadman_iteration_def)

lemma dm_overflow_step:
  "ended s = None \<Longrightarrow> INSTANT_LIMIT \<le> next_erase s \<Longrightarrow>
   dm_step set_osk b T s (s\<lparr>ended := Some (Panic OVERFLOW_MESSAGE)\<rparr>)"
  using dm_step.crash [of s Deadline_Overflow key_new_zeroed set_osk b OVERFLOW_MESSAGE "sink s" T]
  by (simp add: wait_ends_def deadman_iteration_def)

lemma dm_reach_overflow:
  "dm_reach set_osk b T w0 s \<Longrightarrow> INSTANT_LIMIT \<le> T \<Longrightarrow> INSTANT_LIMIT \<le> next_erase s \<and> set_reason s = Stale"
proof (induction rule: dm_reach.induct)
  case (step s s')
  then show ?case using dm_step_overflow [OF step.hyps(2)] by auto
qed auto

definition dm_inv :: "('h \<Rightarrow> 'w \<Rightarrow> key option) \<Rightarrow> ('h \<Rightarrow> 'w \<Rightarrow> bool) \<Rightarrow> 'h \<Rightarrow> nat \<Rightarrow> 'w dm_state \<Rightarrow> bool" where
  "dm_inv inst rdy b erase_after s \<longleftrightarrow>
     (ended s = None \<longrightarrow> next_erase s = set_time s + erase_after \<and> clock s \<le> next_erase s)
     \<and> ((ended s = None \<or> ended s = Some (Ok ())) \<longrightarrow> inst b (sink s) = Some (set_key s) \<and> rdy b (sink s))
     \<and> (ended s = Some (Ok ()) \<longrightarrow> set_reason s = Stale)"

context osk_sink
begin

lemma dm_step_inv:
  "dm_step set_osk b T s s' \<Longrightarrow> dm_inv installed ready b T s \<Longrightarrow> dm_inv installed ready b T s'"
proof (induction rule: dm_step.induct)
  case (request s k reason rnd w)
  then show ?case using set_installs set_ready
    by (auto simp: dm_inv_def dm_record_def wait_ends_def deadman_iteration_Ok)
next
  case (expire s rnd w)
  then show ?case using set_installs set_ready
    by (auto simp: dm_inv_def dm_record_def wait_ends_def deadman_iteration_Ok)
next
  case (close s rnd w)
  then show ?case using set_installs set_ready
    by (auto simp: dm_inv_def dm_record_def wait_ends_def deadman_iteration_Ok)
qed (auto simp: dm_inv_def wait_ends_def)

lemma dm_reach_inv:
  assumes "dm_reach set_osk b T w0 s" "ready b w0"
  shows "dm_inv installed ready b T s"
  using assms
proof (induction rule: dm_reach.induct)
  case (start rnd w t0)
  then show ?case using erase_replaces by (auto simp: dm_inv_def)
next
  case (step s s')
  then show ?case by (blast intro: dm_step_inv)
qed (auto simp: dm_inv_def)

lemma deadman_loop_exit:
  assumes "deadman_loop set_osk b reqs w = Returned (Ok ()) w'" "ready b w"
    and "list_all wait_ok reqs"
  shows "\<exists>rnd. (Closed, rnd) \<in> set reqs \<and> installed b w' = Some rnd"
  using assms
proof (induction reqs arbitrary: w)
  case (Cons q reqs)
  obtain req rnd where q: "q = (req, rnd)" by fastforce
  obtain c w1 where it: "deadman_iteration set_osk b rnd req w = (Ok c, w1)"
    using Cons.prems(1) q by (auto split: prod.splits outcome.splits)
  show ?case
  proof (cases c)
    case True
    with it Cons.prems(2,3) q have "ready b w1"
      using set_ready by (fastforce simp: deadman_iteration_Ok split: recv_result.splits deadman_request.splits)
    with True it Cons q show ?thesis by fastforce
  next
    case False
    with it have "req = Closed" "set_osk b rnd Stale w = (Ok (), w1)"
      by (auto simp: deadman_iteration_Ok split: recv_result.splits deadman_request.splits)
    with False it Cons.prems q set_installs show ?thesis by fastforce
  qed
qed simp

end

text \<open>Waits after which the worker goes on, if its broker lets it.\<close>

fun keeps_waiting :: "recv_result \<Rightarrow> bool" where
  "keeps_waiting (Received q) \<longleftrightarrow> True"
| "keeps_waiting Timeout \<longleftrightarrow> True"
| "keeps_waiting Closed \<longleftrightarrow> False"
| "keeps_waiting Deadline_Overflow \<longleftrightarrow> False"

context reliable_sink
begin

lemma deadman_loop_runs:
  "list_all wait_ok ws \<Longrightarrow> list_all (keeps_waiting \<circ> fst) ws \<Longrightarrow> ready b w \<Longrightarrow>
   \<exists>w'. deadman_loop set_osk b ws w = Running w' \<and> ready b w'"
proof (induction ws arbitrary: w)
  case (Cons q ws)
  obtain req rnd where q: "q = (req, rnd)" by fastforce
  obtain w1 where "deadman_iteration set_osk b rnd req w = (Ok True, w1)" "ready b w1"
  proof (cases req)
    case (Received p)
    then obtain k r where p: "req = Received (SetOsk k r)" by (cases p) simp
    with Cons.prems(1) q have "is_key k" by simp
    from set_runs [OF Cons.prems(3) this] p that show thesis by (auto simp: deadman_iteration_Ok)
  next
    case Timeout
    with Cons.prems(1) q have "is_key rnd" by simp
    from set_runs [OF Cons.prems(3) this] Timeout that show thesis by (auto simp: deadman_iteration_Ok)
  qed (use Cons.prems(2) q in simp_all)
  with Cons q show ?case by simp
qed simp

lemma deadman_event_loop_runs:
  assumes "is_key rnd" "list_all wait_ok ws" "list_all (keeps_waiting \<circ> fst) ws" "ready b w"
  shows "\<exists>w'. deadman_event_loop set_osk b rnd ws w = Running w' \<and> ready b w'"
proof -
  obtain w1 where "set_osk b rnd Stale w = (Ok (), w1)" "ready b w1" by (rule set_runs [OF assms(4,1)])
  with deadman_loop_runs [OF assms(2,3)] show ?thesis
    by (auto simp: deadman_event_loop_def erase_stale_osk_def)
qed

end

section \<open>Properties\<close>

text \<open>
  C9: while the worker runs, the target holds the key of its last request or
  erasure, and a fresh key is never older than the configured lifetime: the clock
  has not passed the time of its installation plus \<open>erase_after\<close>. When the
  worker has shut down in order, the key it leaves behind is a random one.
\<close>

theorem deadman_key_lifetime:
  assumes "osk_sink set_osk inst rdy" and "rdy b w0" and "dm_reach set_osk b erase_after w0 s"
  shows "(ended s = None \<longrightarrow> inst b (sink s) = Some (set_key s)
            \<and> (set_reason s = Fresh \<longrightarrow> clock s \<le> set_time s + erase_after))
       \<and> (ended s = Some (Ok ()) \<longrightarrow> inst b (sink s) = Some (set_key s) \<and> set_reason s = Stale)"
  using osk_sink.dm_reach_inv [OF assms(1,3,2)] by (auto simp: dm_inv_def)

definition out_handler :: outfile_osk_handler where
  "out_handler = outfile_osk_handler_new ''out''"

lemma out_handler_run:
  "is_key k \<Longrightarrow> is_key k' \<Longrightarrow> \<exists>w1 w2.
     outfile_set_osk rfc4648 out_handler k Stale example_out_world = (Ok (), w1)
     \<and> outfile_set_osk rfc4648 out_handler k' Fresh w1 = (Ok (), w2)"
  by (subst outfile_set_osk_rfc, simp_all add: example_out_world_def,
      subst outfile_set_osk_rfc, simp_all)

theorem deadman_key_lifetime_witness:
  "\<exists>s. dm_reach (outfile_set_osk rfc4648) out_handler 150 example_out_world s
      \<and> ended s = None \<and> set_reason s = Fresh \<and> clock s = 100
      \<and> outfile_installed rfc4648 out_handler (sink s) = Some (replicate 32 7)
      \<and> clock s \<le> set_time s + 150"
proof -
  let ?k = "replicate 32 7 :: key"
  have keys: "is_key key_new_zeroed" "is_key ?k" by (simp_all add: is_key_def KEY_LENGTH_def)
  obtain w1 w2 where w1: "outfile_set_osk rfc4648 out_handler key_new_zeroed Stale example_out_world = (Ok (), w1)"
    and w2: "outfile_set_osk rfc4648 out_handler ?k Fresh w1 = (Ok (), w2)"
    using out_handler_run [OF keys] by blast
  let ?s0 = "\<lparr>clock = 0, next_erase = 0 + 150, sink = w1, ended = None, set_time = 0,
      set_reason = Stale, set_key = key_new_zeroed\<rparr>"
  let ?s1 = "dm_record 150 ?k Fresh w2 ?s0"
  have "dm_reach (outfile_set_osk rfc4648) out_handler 150 example_out_world ?s0"
    by (rule dm_reach.start [OF keys(1)]) (simp add: erase_stale_osk_def w1)
  then have "dm_reach (outfile_set_osk rfc4648) out_handler 150 example_out_world ?s1"
    by (rule dm_reach.step, intro dm_step.request [OF _ keys(2), where rnd = key_new_zeroed])
      (simp_all add: deadman_iteration_Ok w2 wait_ends_def INSTANT_LIMIT_def)
  then have r: "dm_reach (outfile_set_osk rfc4648) out_handler 150 example_out_world (?s1\<lparr>clock := 100\<rparr>)"
    by (rule dm_reach.step, intro dm_step.wait) (simp_all add: dm_record_def INSTANT_LIMIT_def)
  have "osk_sink (outfile_set_osk rfc4648) (outfile_installed rfc4648) (\<lambda>h w. True)"
    by (rule rfc.outfile.osk_sink_axioms)
  from deadman_key_lifetime [OF this _ r] r show ?thesis
    by (intro exI [of _ "?s1\<lparr>clock := 100\<rparr>"]) (simp add: dm_record_def)
qed

text \<open>
  C27: the worker's loop returns without an error only through the end of the
  request channel, and then its target holds the random key drawn for that last
  erasure.
\<close>

theorem deadman_shutdown_erases:
  assumes "osk_sink set_osk inst rdy" and "rdy b w" and "is_key rnd0"
    and "list_all wait_ok reqs"
    and "deadman_event_loop set_osk b rnd0 reqs w = Returned (Ok ()) w'"
  shows "\<exists>rnd. (Closed, rnd) \<in> set reqs \<and> inst b w' = Some rnd"
proof -
  obtain w1 where w1: "erase_stale_osk set_osk rnd0 b w = (Ok (), w1)"
    and loop: "deadman_loop set_osk b reqs w1 = Returned (Ok ()) w'"
    using assms(5) by (auto simp: deadman_event_loop_def split: prod.splits outcome.splits)
  have "rdy b w1" by (rule osk_sink.erase_replaces (2) [OF assms(1,2,3) w1])
  then show ?thesis by (rule osk_sink.deadman_loop_exit [OF assms(1) loop _ assms(4)])
qed

theorem deadman_shutdown_erases_witness:
  "\<exists>w'. deadman_event_loop (outfile_set_osk rfc4648) out_handler key_new_zeroed
        [(Closed, replicate 32 7)] example_out_world = Returned (Ok ()) w'
      \<and> outfile_installed rfc4648 out_handler w' = Some (replicate 32 7)"
proof -
  have keys: "is_key key_new_zeroed" "is_key (replicate 32 7)"
    by (simp_all add: is_key_def KEY_LENGTH_def)
  obtain w' where w': "deadman_event_loop (outfile_set_osk rfc4648) out_handler key_new_zeroed
      [(Closed, replicate 32 7)] example_out_world = Returned (Ok ()) w'"
    using keys by (simp add: deadman_event_loop_def deadman_iteration_def erase_stale_osk_def
        outfile_set_osk_rfc example_out_world_def)
  have "osk_sink (outfile_set_osk rfc4648) (outfile_installed rfc4648) (\<lambda>h w. True)"
    by (rule rfc.outfile.osk_sink_axioms)
  from deadman_shutdown_erases [OF this _ keys(1) _ w'] keys w' show ?thesis by auto
qed

text \<open>
  C37: an error of the broker ends the worker for good. When a call of the broker
  fails, the first erasure or the call for whatever wait comes next, the worker thread
  panics in the world the failing call left, whatever requests, deadlines or the end
  of the channel would follow: no further call is made, and a key that was installed
  before is not erased any more.
\<close>

theorem deadman_error_is_last_call:
  "(set_osk b rnd Stale w = (Err e, w') \<longrightarrow>
      deadman_thread (Ok ()) set_osk b rnd later w
        = Returned (Panic ''Error in output key worker thread: {e:?}'') w')
   \<and> (deadman_event_loop set_osk b rnd earlier w = Running w1 \<and> broker_call req rnd' = Some (k, r)
      \<and> set_osk b k r w1 = (Err e, w') \<longrightarrow>
      deadman_thread (Ok ()) set_osk b rnd (earlier @ (req, rnd') # later) w
        = Returned (Panic ''Error in output key worker thread: {e:?}'') w')"
  by (auto simp: deadman_thread_def deadman_event_loop_append deadman_iteration_Err)
    (simp add: deadman_event_loop_def erase_stale_osk_def)

text \<open>A kernel without the interface, and a broker that keeps a list of keys and refuses fresh ones.\<close>

theorem deadman_error_is_last_call_witness:
  "deadman_thread (Ok ()) (wireguard_set_osk ref_wg) (example_wg_handler (replicate 32 2)) (replicate 32 7) []
      (example_wg_world\<lparr>wg_kernel := Map.empty\<rparr>)
     = Returned (Panic ''Error in output key worker thread: {e:?}'') (example_wg_world\<lparr>wg_kernel := Map.empty\<rparr>)
   \<and> deadman_thread (Ok ()) (\<lambda>_ k r ks. if r = Fresh then (Err SendError, ks) else (Ok (), k # ks)) () [1]
        ([(Timeout, [2])] @ (Received (SetOsk [3] Fresh), [4]) # [(Timeout, [5]), (Closed, [6])]) []
     = Returned (Panic ''Error in output key worker thread: {e:?}'') [[2], [1]]"
proof
  let ?w = "example_wg_world\<lparr>wg_kernel := Map.empty\<rparr>" and ?h = "example_wg_handler (replicate 32 2)"
  have "wireguard_set_osk ref_wg ?h (replicate 32 7) Stale ?w = (Err (Foreign 1), ?w)"
    by (simp add: wireguard_set_osk_eq ref_wg_def example_wg_world_def)
  with deadman_error_is_last_call [of "wireguard_set_osk ref_wg" ?h "replicate 32 7" ?w]
  show "deadman_thread (Ok ()) (wireguard_set_osk ref_wg) ?h (replicate 32 7) [] ?w
     = Returned (Panic ''Error in output key worker thread: {e:?}'') ?w" by blast
  let ?set = "\<lambda>_ k r ks. if r = Fresh then (Err SendError, ks) else (Ok (), k # ks)"
  have "deadman_event_loop ?set () [1] [(Timeout, [2])] [] = Running [[2], [1]]"
    by (simp add: deadman_event_loop_def erase_stale_osk_def deadman_iteration_def)
  then
  show "deadman_thread (Ok ()) ?set () [1]
        ([(Timeout, [2])] @ (Received (SetOsk [3] Fresh), [4]) # [(Timeout, [5]), (Closed, [6])]) []
     = Returned (Panic ''Error in output key worker thread: {e:?}'') [[2], [1]]"
    using deadman_error_is_last_call [of ?set "()" "[1]" "[]" SendError "[[2], [1]]"
        "[(Timeout, [5]), (Closed, [6])]" "[(Timeout, [2])]"
      "[[2], [1]]" "Received (SetOsk [3] Fresh)" "[4]" "[3]" Fresh] by simp
qed

end
