(* ===== verification/Deadman_Timing.thy ===== *)
theory Deadman_Timing
  imports Deadman
begin

text \<open>
  The worker of the deadman switch under requests that arrive at given times: which
  waits they make, and what its target holds at any time after them.
\<close>

section \<open>Definitions\<close>

fun request_key :: "deadman_request \<Rightarrow> key" where
  "request_key (SetOsk k reason) = k"

text \<open>
  When the waits end if requests arrive at given times, for a lifetime of \<open>T\<close>
  seconds, after a wait that ended at \<open>t\<close>, until time \<open>e\<close>: a request that
  arrives before the deadline is received, one that arrives only at the deadline is
  late. A deadline that is not a representable instant ends the schedule instead of
  the wait. A lifetime of zero gives deadlines at once and for ever and has no
  schedule.
\<close>

function deadman_schedule ::
  "nat \<Rightarrow> nat \<Rightarrow> (nat \<times> deadman_request) list \<Rightarrow> nat \<Rightarrow> (nat \<times> recv_result) list" where
  "deadman_schedule T t arrivals e =
     (if INSTANT_LIMIT \<le> t + T then [(t, Deadline_Overflow)] else case arrivals of
       (a, q) # later \<Rightarrow>
         if 0 < T \<and> a < t + T \<and> a \<le> e
         then (max t a, Received q) # deadman_schedule T (max t a) later e
         else if 0 < T \<and> t + T \<le> e then (t + T, Timeout) # deadman_schedule T (t + T) arrivals e
         else []
     | [] \<Rightarrow> if 0 < T \<and> t + T \<le> e then (t + T, Timeout) # deadman_schedule T (t + T) [] e else [])"
  by auto

termination
  by (relation "measure (\<lambda>(T, t, arrivals, e). length arrivals + (e - t))") auto

declare deadman_schedule.simps [simp del]

text \<open>Requests that arrive in order, each less than \<open>T\<close> after the one before.\<close>

fun in_time :: "nat \<Rightarrow> nat \<Rightarrow> (nat \<times> deadman_request) list \<Rightarrow> bool" where
  "in_time T t [] \<longleftrightarrow> True"
| "in_time T t ((a, q) # later) \<longleftrightarrow> t \<le> a \<and> a < t + T \<and> in_time T a later"

text \<open>The waits of a schedule, the wait number \<open>n\<close> with the random key \<open>rnds n\<close>.\<close>

definition schedule_waits :: "(nat \<Rightarrow> key) \<Rightarrow> (nat \<times> recv_result) list \<Rightarrow> (recv_result \<times> key) list" where
  "schedule_waits rnds xs = map (\<lambda>(n, t, req). (req, rnds n)) (enumerate 0 xs)"

section \<open>Lemmas\<close>

lemma in_time_schedule:
  "in_time T t xs \<Longrightarrow> \<forall>x \<in> set xs. fst x \<le> e \<Longrightarrow> e + T < INSTANT_LIMIT \<Longrightarrow> deadman_schedule T t xs e
     = map (\<lambda>(a, q). (a, Received q)) xs @ deadman_schedule T (last (t # map fst xs)) [] e"
proof (induction T t xs rule: in_time.induct)
  case (2 T t a q later)
  then have "deadman_schedule T t ((a, q) # later) e = (a, Received q) # deadman_schedule T a later e"
    by (subst deadman_schedule.simps) auto
  with 2 show ?case by auto
qed simp

lemma schedule_fresh: "e < t + T \<Longrightarrow> t + T < INSTANT_LIMIT \<Longrightarrow> deadman_schedule T t [] e = []"
  by (subst deadman_schedule.simps) simp

lemma schedule_overflow:
  "INSTANT_LIMIT \<le> t + T \<Longrightarrow> deadman_schedule T t arrivals e = [(t, Deadline_Overflow)]"
  by (subst deadman_schedule.simps) simp

lemma schedule_rest:
  assumes "0 < T" "t \<le> e" "e + T < INSTANT_LIMIT"
  shows "\<exists>n. map snd (deadman_schedule T t [] e) = replicate n Timeout \<and> (n = 0 \<longleftrightarrow> e < t + T)"
  using assms(2)
proof (induction "e - t" arbitrary: t rule: less_induct)
  case less
  show ?case
  proof (cases "t + T \<le> e")
    case True
    then have "e - (t + T) < e - t" using assms by simp
    from less.hyps [OF this True] obtain n where "map snd (deadman_schedule T (t + T) [] e) = replicate n Timeout" by blast
    then show ?thesis using True assms
      by (subst deadman_schedule.simps) (auto intro: exI [of _ "Suc n"])
  next
    case False
    then show ?thesis using less.prems assms(3) by (intro exI [of _ 0]) (simp add: schedule_fresh)
  qed
qed

lemma in_time_times: "in_time T t xs \<Longrightarrow> x \<in> set xs \<Longrightarrow> t \<le> fst x \<and> fst x \<le> fst (last xs)"
proof (induction T t xs arbitrary: x rule: in_time.induct)
  case (2 T t a q later)
  show ?case
  proof (cases "later = []")
    case False
    then have "a \<le> fst (last later)" using 2 last_in_set [OF False] by auto
    with 2 False show ?thesis by fastforce
  qed (use 2 in auto)
qed simp

lemma last_fst: "xs \<noteq> [] \<Longrightarrow> last (t # map fst xs) = fst (last xs)"
  by (simp add: last_map)

fun whole_recv :: "recv_result \<Rightarrow> bool" where
  "whole_recv (Received q) \<longleftrightarrow> is_key (request_key q)"
| "whole_recv Closed \<longleftrightarrow> False"
| "whole_recv Timeout \<longleftrightarrow> True"
| "whole_recv Deadline_Overflow \<longleftrightarrow> False"

lemma schedule_waits_snoc:
  "schedule_waits rnds (xs @ [x]) = schedule_waits rnds xs @ [(snd x, rnds (length xs))]"
  by (simp add: schedule_waits_def enumerate_append_eq case_prod_unfold)

lemma schedule_waits_ok:
  assumes "\<forall>n. is_key (rnds n)" "list_all (whole_recv \<circ> snd) xs"
  shows "list_all wait_ok (schedule_waits rnds xs)"
    and "list_all (keeps_waiting \<circ> fst) (schedule_waits rnds xs)"
proof -
  have "wait_ok (req, rnds n) \<and> keeps_waiting req" if "whole_recv req" for req n
    using that assms(1) by (cases "(req, rnds n)" rule: wait_ok.cases) auto
  then have "wait_ok (req, rnds n) \<and> keeps_waiting req" if "(n, t, req) \<in> set (enumerate 0 xs)" for n t req
    using that assms(2) in_set_enumerate_eq [of "(n, t, req)" 0 xs] nth_mem [of n xs]
    by (fastforce simp: list_all_iff)
  then show "list_all wait_ok (schedule_waits rnds xs)" "list_all (keeps_waiting \<circ> fst) (schedule_waits rnds xs)"
    by (fastforce simp: schedule_waits_def list_all_iff)+
qed

context reliable_sink
begin

lemma deadman_event_loop_last:
  assumes "ready b w" "is_key rnd0" "list_all wait_ok (ws @ [(req, rnd)])"
    and "list_all (keeps_waiting \<circ> fst) (ws @ [(req, rnd)])"
  shows "\<exists>w'. deadman_event_loop set_osk b rnd0 (ws @ [(req, rnd)]) w = Running w'
     \<and> installed b w' = Some (case req of Received (SetOsk k r) \<Rightarrow> k | _ \<Rightarrow> rnd)"
proof -
  from deadman_event_loop_runs [OF assms(2) _ _ assms(1), of ws] assms(3,4)
  obtain w1 where w1: "deadman_event_loop set_osk b rnd0 ws w = Running w1" "ready b w1" by auto
  have ok: "wait_ok (req, rnd)" "keeps_waiting req" using assms(3,4) by auto
  show ?thesis
  proof (cases req)
    case (Received p)
    then obtain k r where p: "req = Received (SetOsk k r)" by (cases p) simp
    with ok have "is_key k" by simp
    then obtain w2 where "set_osk b k r w1 = (Ok (), w2)" "installed b w2 = Some k" by (rule set_runs [OF w1(2)])
    then show ?thesis using p by (simp add: deadman_event_loop_append [OF w1(1)] deadman_iteration_def)
  next
    case Timeout
    with ok have "is_key rnd" by simp
    then obtain w2 where "set_osk b rnd Stale w1 = (Ok (), w2)" "installed b w2 = Some rnd" by (rule set_runs [OF w1(2)])
    then show ?thesis using Timeout
      by (simp add: deadman_event_loop_append [OF w1(1)] deadman_iteration_def erase_stale_osk_def)
  qed (use ok in simp_all)
qed

lemma deadman_schedule_target:
  assumes "ready b w" "is_key rnd0" "\<forall>n. is_key (rnds n)"
    and "arrivals \<noteq> []" "list_all (is_key \<circ> request_key \<circ> snd) arrivals"
    and "in_time T t arrivals" "fst (last arrivals) \<le> e" "e + T < INSTANT_LIMIT"
  shows "\<exists>w'. deadman_event_loop set_osk b rnd0 (schedule_waits rnds (deadman_schedule T t arrivals e)) w
       = Running w' \<and> installed b w'
       = Some (if e < fst (last arrivals) + T then request_key (snd (last arrivals))
               else rnds (length (deadman_schedule T t arrivals e) - 1))"
proof -
  let ?l = "fst (last arrivals)" and ?recv = "map (\<lambda>(a, q). (a, Received q))"
  let ?sched = "deadman_schedule T t arrivals e"
  have "\<forall>x \<in> set arrivals. fst x \<le> e" using in_time_times [OF assms(6)] assms(7) by fastforce
  from in_time_schedule [OF assms(6) this assms(8)]
  have sched: "?sched = ?recv arrivals @ deadman_schedule T ?l [] e"
    using last_fst [OF assms(4), of t] by simp
  have T: "0 < T" using assms(4,6) by (cases arrivals) (auto intro: Nat.gr0I)
  obtain n where n: "map snd (deadman_schedule T ?l [] e) = replicate n Timeout"
    and late: "n = 0 \<longleftrightarrow> e < ?l + T" using schedule_rest [OF T assms(7,8)] by blast
  have whole: "list_all (whole_recv \<circ> snd) ?sched"
  proof -
    have "list_all whole_recv (map snd (deadman_schedule T ?l [] e))" unfolding n by (simp add: list_all_iff)
    moreover have "list_all (whole_recv \<circ> snd) (?recv arrivals)" using assms(5) by (auto simp: list_all_iff)
    ultimately show ?thesis by (auto simp: sched list_all_iff)
  qed
  have "?sched \<noteq> []" using assms(4) by (simp add: sched)
  then obtain ys y where y: "?sched = ys @ [y]" by (metis append_butlast_last_id)
  have last: "snd y = (if e < ?l + T then Received (snd (last arrivals)) else Timeout)"
  proof -
    have "snd y = last (map snd ?sched)" by (simp add: y)
    also have "\<dots> = last (map snd (?recv arrivals) @ replicate n Timeout)" by (simp add: sched n)
    finally show ?thesis using late assms(4) by (cases n) (auto simp: last_map case_prod_unfold)
  qed
  have key: "(case snd y of Received (SetOsk k r) \<Rightarrow> k | _ \<Rightarrow> rnds (length ys))
      = (if e < ?l + T then request_key (snd (last arrivals)) else rnds (length ?sched - 1))"
    by (cases "snd (last arrivals)") (simp add: last y)
  from deadman_event_loop_last [OF assms(1,2) schedule_waits_ok [OF assms(3) whole, unfolded y schedule_waits_snoc]]
  show ?thesis unfolding key by (simp only: y schedule_waits_snoc)
qed

end

end
