(* ===== verification/Setup.thy ===== *)
theory Setup
  imports Tcp Deadman_Timing
begin

text \<open>
  \<open>daisyway/setup.rs\<close>: the configuration file and how it becomes a running
  participant. Reading the file is the file system's, parsing it the \<open>toml\<close>
  crate's business; both are parameters. The handler of the output key is always
  the deadman switch, around the file handler or the WireGuard handler.
\<close>

section \<open>Configuration\<close>

record wireguard_config =
  cfg_local_peer_id :: string
  cfg_remote_peer_id :: string
  interface :: "string option"

record outfile_config =
  outfile_path :: string

record peer_config =
  participant :: daisyway_tcp_participant_config
  psk_file :: "string option"

record daisyway_config =
  etsi014 :: etsi014_config
  wireguard :: wireguard_config
  outfile :: "outfile_config option"
  peer :: peer_config

definition load_from_file ::
  "(string \<Rightarrow> string outcome) \<Rightarrow> (string \<Rightarrow> daisyway_config outcome) \<Rightarrow> string \<Rightarrow> daisyway_config outcome" where
  "load_from_file read_to_string toml_from_str file_path =
     bind_outcome (context_outcome ''Failed to read config file {file_path:?}'' [Str file_path]
       (read_to_string file_path)) toml_from_str"

section \<open>Start\<close>

text \<open>The broker behind the deadman switch, and the switch as it is started.\<close>

datatype broker = Outfile_Broker outfile_osk_handler | Wireguard_Broker wireguard_osk_handler

type_synonym started_deadman = "deadman_request channel osk_deadman \<times> broker deadman_worker"

record 'e daisyway =
  the_participant :: "(started_deadman, 'e) daisyway_tcp_participant"

definition start_deadman :: "bool \<Rightarrow> broker \<Rightarrow> u64 \<Rightarrow> started_deadman outcome" where
  "start_deadman overflow_checks b rekey_interval =
     (if overflow_checks \<and> rekey_interval + 30 < rekey_interval
      then Panic ''attempt to add with overflow''
      else Ok (osk_deadman_start (rekey_interval + 30) (\<lambda>_. b)))"

lemmas start_deadman_simps = start_deadman_def osk_deadman_start_def deadman_worker_start_def

text \<open>
  What the set-up finds: the files, the TLS and HTTP crates, the kernel's WireGuard
  interfaces, and whether the program was built for Linux.
\<close>

record ('e, 'k) host =
  host_fs :: filesystem
  host_tls :: tls_ops
  build_client :: "client_config option \<Rightarrow> 'e http_get outcome"
  host_wg :: "'k wg_ops"
  host_kernel :: 'k
  target_linux :: bool

definition load_psk :: "base64_ops \<Rightarrow> filesystem \<Rightarrow> string option \<Rightarrow> key outcome option" where
  "load_psk B fs psk_path = (case psk_path of
       None \<Rightarrow> Some (Ok key_new_zeroed)
     | Some path \<Rightarrow> map_option (context_outcome ''Could not load PSK file from {file:?}'' [])
         (load_base64_key_file B fs path))"

definition choose_handler ::
  "base64_ops \<Rightarrow> bool \<Rightarrow> ('e, 'k) host \<Rightarrow> daisyway_config \<Rightarrow> u64 \<Rightarrow> started_deadman outcome" where
  "choose_handler B overflow_checks env cfg rekey_interval =
     (case (interface (wireguard cfg), outfile cfg) of
        (None, None) \<Rightarrow> Err (Fmt ''You need to specify either the wireguard.interface or outfile.path configuration option'' [])
      | (Some _, Some _) \<Rightarrow> Err (Fmt ''You can not specify both the wireguard.interface and outfile.path configuration options'' [])
      | (None, Some out) \<Rightarrow>
          start_deadman overflow_checks (Outfile_Broker (outfile_osk_handler_new (outfile_path out))) rekey_interval
      | (Some iface, None) \<Rightarrow>
          if target_linux env then
            bind_outcome (context_outcome ''Could start WireGuard key handler'' []
                (wireguard_setup B (host_wg env) (cfg_remote_peer_id (wireguard cfg)) iface (host_kernel env))) (\<lambda>h.
              start_deadman overflow_checks (Wireguard_Broker h) rekey_interval)
          else Err (Fmt ''Directly interfacing with WireGuard is only supported on Linux. Please use the outfile configuration option instead.'' []))"

text \<open>
  \<open>None\<close> is a start that never returns (the reader of the pre-shared key file).
  The boolean is whether the process has installed its TLS provider before.
\<close>

definition daisyway_from_config ::
  "base64_ops \<Rightarrow> bool \<Rightarrow> ('e, 'k) host \<Rightarrow> daisyway_config \<Rightarrow> bool \<Rightarrow> 'e daisyway outcome option" where
  "daisyway_from_config B overflow_checks env cfg installed =
     (let rekey_interval = (case interval_secs (etsi014 cfg) of None \<Rightarrow> REKEY_INTERVAL | Some s \<Rightarrow> s)
      in map_option (\<lambda>loaded. bind_outcome loaded (\<lambda>p.
         bind_outcome (context_outcome ''Could not decode WireGuard local peer id {:?}''
             [Str (cfg_local_peer_id (wireguard cfg))]
             (base64_to_key B (as_bytes (cfg_local_peer_id (wireguard cfg))))) (\<lambda>local_id.
         bind_outcome (context_outcome ''Could not decode WireGuard remote peer id {:?}''
             [Str (cfg_remote_peer_id (wireguard cfg))]
             (base64_to_key B (as_bytes (cfg_remote_peer_id (wireguard cfg))))) (\<lambda>remote_id.
         bind_outcome (fst (etsi014_from_config (host_tls env) (build_client env) (etsi014 cfg) installed)) (\<lambda>etsi_client.
         bind_outcome (choose_handler B overflow_checks env cfg rekey_interval) (\<lambda>osk_handler.
           Ok \<lparr>the_participant = participant_from_config
                 \<lparr>psk = p, local_peer_id = local_id, remote_peer_id = remote_id\<rparr>
                 (participant (peer cfg)) etsi_client osk_handler rekey_interval\<rparr>))))))
        (load_psk B (host_fs env) (psk_file (peer cfg))))"

definition daisyway_event_loop ::
  "bool \<Rightarrow> (started_deadman, 'w) set_osk \<Rightarrow> 's crates \<Rightarrow> (string \<Rightarrow> unit outcome) \<Rightarrow> 'e daisyway
     \<Rightarrow> ('s outcome \<times> nat) list \<Rightarrow> 's selected list \<Rightarrow> ('e, 'w) client_world
     \<Rightarrow> (started_deadman, 's, 'e, 'w) participant_run" where
  "daisyway_event_loop overflow_checks set_osk C bind_listener d attempts xs w =
     participant_event_loop overflow_checks set_osk C bind_listener (the_participant d) attempts xs w"

section \<open>Properties\<close>

definition participant_params :: "('h, 'e) daisyway_tcp_participant \<Rightarrow> daisyway_protocol_parameters" where
  "participant_params p = (case p of Client c \<Rightarrow> tcl_params c | Server s \<Rightarrow> tsv_params s)"

definition participant_handler :: "('h, 'e) daisyway_tcp_participant \<Rightarrow> 'h" where
  "participant_handler p = (case p of Client c \<Rightarrow> tcl_osk_handler c | Server s \<Rightarrow> tsv_osk_handler s)"

lemma participant_from_config_fields:
  "participant_params (participant_from_config params config etsi h interval) = params"
  "participant_handler (participant_from_config params config etsi h interval) = h"
  by (simp_all add: participant_params_def participant_handler_def participant_from_config_def
      daisyway_tcp_client_new_def daisyway_tcp_server_new_def split: daisyway_tcp_participant_config.splits)

lemma daisyway_from_config_Ok:
  assumes "daisyway_from_config B oc env cfg installed = Some (Ok d)"
  shows "load_psk B (host_fs env) (psk_file (peer cfg)) = Some (Ok (psk (participant_params (the_participant d))))"
    and "base64_to_key B (as_bytes (cfg_local_peer_id (wireguard cfg)))
           = Ok (local_peer_id (participant_params (the_participant d)))"
    and "base64_to_key B (as_bytes (cfg_remote_peer_id (wireguard cfg)))
           = Ok (remote_peer_id (participant_params (the_participant d)))"
    and "choose_handler B oc env cfg
           (case interval_secs (etsi014 cfg) of None \<Rightarrow> REKEY_INTERVAL | Some s \<Rightarrow> s)
           = Ok (participant_handler (the_participant d))"
  using assms by (auto simp: daisyway_from_config_def Let_def participant_from_config_fields)

lemma load_psk_is_key:
  assumes "base64ct B" "load_psk B fs path = Some (Ok k)"
  shows "is_key k"
proof (cases path)
  case (Some p)
  obtain res where "load_base64_key_file B fs p = Some res" "context_outcome c as res = Ok k" for c as
    using assms(2) Some by (auto simp: load_psk_def)
  then have "load_base64_key_file B fs p = Some (Ok k)" by simp
  then show ?thesis
    using base64ct.base64_to_key_is_key [OF assms(1)]
    by (auto simp: load_base64_key_file_def split: outcome.splits option.splits)
qed (use assms(2) in \<open>simp add: load_psk_def\<close>)

text \<open>
  C35: when the set-up returns. Starting from a configuration comes to an end, with a
  running participant, an error or a panic, unless the operating system interrupts the
  reads of the pre-shared key file for ever; when that file can be opened and every
  read of it is interrupted, the set-up never returns.
\<close>

theorem setup_returns:
  "((\<forall>path. psk_file (peer cfg) = Some path \<longrightarrow> \<not> interrupted_for_ever (read_events (host_fs env) path)) \<longrightarrow>
      (\<exists>res. daisyway_from_config B overflow_checks env cfg installed = Some res))
   \<and> (psk_file (peer cfg) = Some path \<and> files (host_fs env) path \<noteq> None
        \<and> open_error (host_fs env) path = None \<and> (\<forall>i. interrupts (read_events (host_fs env) path i)) \<longrightarrow>
      daisyway_from_config B overflow_checks env cfg installed = None)"
proof (intro conjI impI)
  assume "\<forall>path. psk_file (peer cfg) = Some path \<longrightarrow> \<not> interrupted_for_ever (read_events (host_fs env) path)"
  then have "\<exists>loaded. load_psk B (host_fs env) (psk_file (peer cfg)) = Some loaded"
    using load_base64_key_file_returns [of "host_fs env" _ B] by (force simp: load_psk_def split: option.splits)
  then show "\<exists>res. daisyway_from_config B overflow_checks env cfg installed = Some res"
    by (auto simp: daisyway_from_config_def Let_def)
next
  assume "psk_file (peer cfg) = Some path \<and> files (host_fs env) path \<noteq> None
    \<and> open_error (host_fs env) path = None \<and> (\<forall>i. interrupts (read_events (host_fs env) path i))"
  then have "load_psk B (host_fs env) (psk_file (peer cfg)) = None"
    using load_base64_key_file_interrupted [of "host_fs env" path B] by (simp add: load_psk_def)
  then show "daisyway_from_config B overflow_checks env cfg installed = None"
    by (simp add: daisyway_from_config_def)
qed

text \<open>
  C14: a successful start comes from a usable configuration. Exactly one target of
  the output key is configured, and the handler is the deadman switch around it;
  the switch erases 30 seconds after the rekey interval (in 64 bits); the protocol
  parameters are well-formed.
\<close>

theorem setup_success:
  assumes "base64ct B"
    and "daisyway_from_config B overflow_checks env cfg installed = Some (Ok d)"
  shows "wf_params (participant_params (the_participant d))
    \<and> worker_erase_after (snd (participant_handler (the_participant d)))
        = (case interval_secs (etsi014 cfg) of None \<Rightarrow> 120 | Some s \<Rightarrow> s) + 30
    \<and> (case deadman_broker (snd (participant_handler (the_participant d))) of
         Outfile_Broker h \<Rightarrow> interface (wireguard cfg) = None
           \<and> (\<exists>out. outfile cfg = Some out \<and> out_path h = outfile_path out)
       | Wireguard_Broker h \<Rightarrow> outfile cfg = None \<and> interface (wireguard cfg) = Some (wg_interface h)
           \<and> wg_peer_id h = remote_peer_id (participant_params (the_participant d)))"
proof -
  note ok = daisyway_from_config_Ok [OF assms(2)]
  have "wf_params (participant_params (the_participant d))"
    using load_psk_is_key [OF assms(1) ok(1)] base64ct.base64_to_key_is_key [OF assms(1)] ok(2,3)
    by (auto simp: wf_params_def)
  moreover have "(case deadman_broker (snd h) of
         Outfile_Broker f \<Rightarrow> interface (wireguard cfg) = None
           \<and> (\<exists>out. outfile cfg = Some out \<and> out_path f = outfile_path out)
       | Wireguard_Broker w \<Rightarrow> outfile cfg = None \<and> interface (wireguard cfg) = Some (wg_interface w)
           \<and> wg_peer_id w = remote_peer_id (participant_params (the_participant d)))
      \<and> worker_erase_after (snd h) = i + 30" if "choose_handler B overflow_checks env cfg i = Ok h" for h i
    using that ok(3)
    by (auto simp: choose_handler_def start_deadman_simps wireguard_setup_def outfile_osk_handler_new_def
        split: option.splits if_splits)
  ultimately show ?thesis using ok(4) by (auto simp: REKEY_INTERVAL_def split: option.splits)
qed

definition example_host :: "(unit, ref_kernel) host" where
  "example_host = \<lparr>host_fs = example_fs (rfc_encode (replicate 32 9)) [], host_tls = example_tls,
     build_client = (\<lambda>cfg. Ok (\<lambda>uri w. (Err (Foreign 0), w))), host_wg = ref_wg,
     host_kernel = Map.empty, target_linux = True\<rparr>"

definition b64_text :: "byte list \<Rightarrow> string" where
  "b64_text bs = string_of_bytes (rfc_encode bs)"

definition example_daisyway_config :: "byte \<Rightarrow> byte \<Rightarrow> daisyway_tcp_participant_config \<Rightarrow> daisyway_config" where
  "example_daisyway_config a b role = \<lparr>etsi014 = example_config,
     wireguard = \<lparr>cfg_local_peer_id = b64_text (replicate 32 a), cfg_remote_peer_id = b64_text (replicate 32 b),
       interface = None\<rparr>,
     outfile = Some \<lparr>outfile_path = ''out''\<rparr>, peer = \<lparr>participant = role, psk_file = Some ''psk.key''\<rparr>\<rparr>"

lemma example_setup:
  "\<exists>d. daisyway_from_config rfc4648 True example_host (example_daisyway_config a b role) False = Some (Ok d)"
proof -
  have peer: "base64_to_key rfc4648 (as_bytes (b64_text (replicate 32 x))) = Ok (replicate 32 x)" for x
    using rfc.base64_to_key_encode [of "replicate 32 x" KEY_LENGTH_B64 "rfc_encode (replicate 32 x)"]
    by (simp add: b64_text_def rfc4648_def length_rfc_encode padded_len_def KEY_LENGTH_B64_eq)
  have "load_base64_key_file rfc4648 (example_fs (rfc_encode (replicate 32 9)) []) ''psk.key''
      = Some (Ok (replicate 32 9))"
    by (rule rfc.load_encoded_key [where cap = KEY_LENGTH_B64 and s = "rfc_encode (replicate 32 9)"])
      (simp_all add: rfc4648_def length_rfc_encode padded_len_def KEY_LENGTH_B64_eq)
  moreover have "30 + 120 = (150 :: u64)" by simp
  ultimately show ?thesis
    by (simp add: daisyway_from_config_def load_psk_def example_host_def example_daisyway_config_def peer
        etsi014_from_config_def configure_rustls_def example_config_def example_tls_def load_roots_def
        load_client_auth_def choose_handler_def start_deadman_simps REKEY_INTERVAL_def Let_def
        verifier_from_roots_def)
qed

theorem setup_returns_witness:
  "(\<exists>res. daisyway_from_config rfc4648 True example_host
          (example_daisyway_config 1 2 (Client_Config ''192.0.2.1:7000'')) False = Some res)
   \<and> daisyway_from_config rfc4648 True
        (example_host\<lparr>host_fs := (example_fs [] [])\<lparr>read_events := \<lambda>p i. Os_interrupt\<rparr>\<rparr>)
        (example_daisyway_config 1 2 (Client_Config ''192.0.2.1:7000'')) False = None"
proof
  let ?cfg = "example_daisyway_config 1 2 (Client_Config ''192.0.2.1:7000'')"
  let ?bad = "example_host\<lparr>host_fs := (example_fs [] [])\<lparr>read_events := \<lambda>p i. Os_interrupt\<rparr>\<rparr>"
  have "\<not> interrupted_for_ever (read_events (host_fs example_host) path)" for path
    using example_reads_healthy(2) [of "[]"] by (simp add: reads_healthy_def example_host_def)
  with setup_returns [of ?cfg example_host rfc4648 True False]
  show "\<exists>res. daisyway_from_config rfc4648 True example_host ?cfg False = Some res" by blast
  have "psk_file (peer ?cfg) = Some ''psk.key'' \<and> files (host_fs ?bad) ''psk.key'' \<noteq> None
    \<and> open_error (host_fs ?bad) ''psk.key'' = None \<and> (\<forall>i. interrupts (read_events (host_fs ?bad) ''psk.key'' i))"
    by (simp add: example_daisyway_config_def interrupts_def example_fs_def)
  with setup_returns [of ?cfg ?bad rfc4648 True False "''psk.key''"]
  show "daisyway_from_config rfc4648 True ?bad ?cfg False = None" by blast
qed

theorem setup_success_witness:
  "\<exists>d. daisyway_from_config rfc4648 True example_host
          (example_daisyway_config 1 2 (Client_Config ''192.0.2.1:7000'')) False = Some (Ok d)
      \<and> wf_params (participant_params (the_participant d))
      \<and> worker_erase_after (snd (participant_handler (the_participant d))) = 150"
proof -
  obtain d where d: "daisyway_from_config rfc4648 True example_host
      (example_daisyway_config 1 2 (Client_Config ''192.0.2.1:7000'')) False = Some (Ok d)"
    using example_setup by blast
  from setup_success [OF rfc.base64ct_axioms d] d show ?thesis
    by (auto simp: example_daisyway_config_def example_config_def)
qed

text \<open>
  C15: two hosts configured for one tunnel, each naming the other's public key as
  its peer and loading the same pre-shared key, start with mirrored protocol
  parameters, so that every derivation gives both the same key.
\<close>

theorem paired_configs_mirrored:
  assumes "daisyway_from_config B oa env_a cfg_a ia = Some (Ok da)"
    and "daisyway_from_config B ob env_b cfg_b ib = Some (Ok db)"
    and "cfg_local_peer_id (wireguard cfg_a) = cfg_remote_peer_id (wireguard cfg_b)"
    and "cfg_remote_peer_id (wireguard cfg_a) = cfg_local_peer_id (wireguard cfg_b)"
    and "load_psk B (host_fs env_a) (psk_file (peer cfg_a)) = load_psk B (host_fs env_b) (psk_file (peer cfg_b))"
  shows "mirrored (participant_params (the_participant da)) (participant_params (the_participant db))
    \<and> derive_daisyway_key U X (participant_params (the_participant da)) n k
        = derive_daisyway_key U X (participant_params (the_participant db)) n k"
proof -
  have "mirrored (participant_params (the_participant da)) (participant_params (the_participant db))"
    using daisyway_from_config_Ok [OF assms(1)] daisyway_from_config_Ok [OF assms(2)] assms(3-5)
    by (simp add: mirrored_def)
  then show ?thesis by (simp add: derive_mirrored)
qed

theorem paired_configs_mirrored_witness:
  "\<exists>da db. daisyway_from_config rfc4648 True example_host
        (example_daisyway_config 1 2 (Client_Config ''192.0.2.1:7000'')) False = Some (Ok da)
    \<and> daisyway_from_config rfc4648 True example_host
        (example_daisyway_config 2 1 (Server_Config ''[::]:7000'')) False = Some (Ok db)
    \<and> mirrored (participant_params (the_participant da)) (participant_params (the_participant db))"
proof -
  obtain da db where d: "daisyway_from_config rfc4648 True example_host
        (example_daisyway_config 1 2 (Client_Config ''192.0.2.1:7000'')) False = Some (Ok da)"
    "daisyway_from_config rfc4648 True example_host
        (example_daisyway_config 2 1 (Server_Config ''[::]:7000'')) False = Some (Ok db)"
    using example_setup by metis
  from paired_configs_mirrored [OF d] d show ?thesis by (auto simp: example_daisyway_config_def)
qed

text \<open>
  C25: with overflow checks the deadman switch always waits 30 seconds longer than
  the rekey interval. Without them the sum wraps around: for an interval within 30
  seconds of \<open>2 ^ 64\<close> the key is erased in less than 30 seconds.
\<close>

theorem deadman_outlives_interval:
  "(start_deadman True b i = Ok d \<longrightarrow> unat (worker_erase_after (snd d)) = unat i + 30)
   \<and> (start_deadman False b i = Ok d \<longrightarrow>
        (if unat i + 30 < 2 ^ 64 then unat (worker_erase_after (snd d)) = unat i + 30
         else unat (worker_erase_after (snd d)) < 30))"
proof -
  have i: "unat i < 2 ^ 64" using unsigned_less [of i, where ?'a = nat] by simp
  have sum: "unat (i + 30) = (unat i + 30) mod 2 ^ 64" by (simp add: unat_word_ariths)
  have nowrap: "unat (i + 30) = unat i + 30" if "unat i + 30 < 2 ^ 64" using that sum by simp
  have wrap: "unat (i + 30) < 30" if "\<not> unat i + 30 < 2 ^ 64"
    using that sum i by (auto simp: mod_if)
  have "unat i + 30 < 2 ^ 64" if "\<not> i + 30 < i"
    using that wrap i by (auto simp: word_less_nat_alt)
  with nowrap wrap show ?thesis by (auto simp: start_deadman_simps)
qed

theorem deadman_outlives_interval_witness:
  "\<exists>d. start_deadman False (Outfile_Broker (outfile_osk_handler_new ''out'')) (- 1) = Ok d \<and> unat (worker_erase_after (snd d)) < 30"
proof -
  obtain d where d: "start_deadman False (Outfile_Broker (outfile_osk_handler_new ''out'')) (- 1) = Ok d" by (simp add: start_deadman_simps)
  have "\<not> unat (- 1 :: u64) + 30 < 2 ^ 64" by (simp add: unsigned_minus_1_eq_mask mask_eq_exp_minus_1)
  with deadman_outlives_interval [of _ "- 1" d] d show ?thesis by simp
qed

lemma started_lifetime:
  "start_deadman oc br i = Ok d \<Longrightarrow> unat i + 30 < 2 ^ 64 \<Longrightarrow> unat (worker_erase_after (snd d)) = unat i + 30"
  by (auto simp: start_deadman_simps unat_word_ariths split: if_splits)

text \<open>
  C10: regular rekeying keeps the key in place. When the keys reach the worker's
  channel each less than 30 seconds later than the rekey interval after the one
  before, and the deadlines up to the time \<open>e\<close> in question are instants that the
  clock can represent, then at every such time \<open>e\<close> from the last arrival on the
  target holds the key that arrived last, until its lifetime has passed; from that
  instant on it holds a random key.
\<close>

theorem rekeying_keeps_key_fresh:
  assumes "start_deadman overflow_checks br i = Ok d" and "e + (unat i + 30) < INSTANT_LIMIT"
    and "reliable_sink set_osk inst rdy" and "rdy b w" and "is_key rnd0" and "\<forall>n. is_key (rnds n)"
    and "arrivals \<noteq> []" and "list_all (is_key \<circ> request_key \<circ> snd) arrivals"
    and "in_time (unat i + 30) t arrivals" and "fst (last arrivals) \<le> e"
    and "deadman_schedule (unat (worker_erase_after (snd d))) t arrivals e = schedule"
  shows "\<exists>w'. deadman_event_loop set_osk b rnd0 (schedule_waits rnds schedule) w = Running w'
     \<and> inst b w' = Some (if e < fst (last arrivals) + (unat i + 30) then request_key (snd (last arrivals))
                         else rnds (length schedule - 1))"
proof -
  have "unat i + 30 < 2 ^ 64" using assms(2) by (simp add: INSTANT_LIMIT_def)
  with assms(1) have "unat (worker_erase_after (snd d)) = unat i + 30" by (rule started_lifetime)
  with assms(11) have "deadman_schedule (unat i + 30) t arrivals e = schedule" by simp
  from reliable_sink.deadman_schedule_target [OF assms(3-10,2), unfolded this] show ?thesis .
qed

theorem rekeying_keeps_key_fresh_witness:
  "\<exists>d w1 w2. start_deadman True (Outfile_Broker out_handler) 120 = Ok d
     \<and> outfile_installed rfc4648 out_handler w1 = Some (replicate 32 2)
     \<and> deadman_event_loop (outfile_set_osk rfc4648) out_handler key_new_zeroed
         (schedule_waits (\<lambda>n. replicate 32 9) (deadman_schedule (unat (worker_erase_after (snd d))) 0
            [(5, SetOsk (replicate 32 1) Fresh), (130, SetOsk (replicate 32 2) Fresh)] 279)) example_out_world
         = Running w1
     \<and> outfile_installed rfc4648 out_handler w2 = Some (replicate 32 9)
     \<and> deadman_event_loop (outfile_set_osk rfc4648) out_handler key_new_zeroed
         (schedule_waits (\<lambda>n. replicate 32 9) (deadman_schedule (unat (worker_erase_after (snd d))) 0
            [(5, SetOsk (replicate 32 1) Fresh), (130, SetOsk (replicate 32 2) Fresh)] 280)) example_out_world
         = Running w2"
proof -
  let ?xs = "[(5, SetOsk (replicate 32 1) Fresh), (130, SetOsk (replicate 32 2) Fresh)]"
  obtain d where d: "start_deadman True (Outfile_Broker out_handler) 120 = Ok d"
    by (simp add: start_deadman_simps)
  have keys: "\<forall>n. is_key ((\<lambda>n :: nat. replicate 32 9) n)" "list_all (is_key \<circ> request_key \<circ> snd) ?xs" by simp_all
  have range: "279 + (unat (120 :: u64) + 30) < INSTANT_LIMIT" "280 + (unat (120 :: u64) + 30) < INSTANT_LIMIT"
    by (simp_all add: INSTANT_LIMIT_def)
  note at = rekeying_keeps_key_fresh [OF d _ out_rfc.reliable_sink_axioms example_out_writable
      is_key_new_zeroed keys(1) _ keys(2) _ _ refl, of _ 0]
  from at [OF range(1), of out_handler] at [OF range(2), of out_handler] d show ?thesis by fastforce
qed



end
