(* ===== verification/Cli.thy ===== *)
theory Cli
  imports Setup
begin

text \<open>
  \<open>main.rs\<close>: the command line. Parsing the arguments, rendering manual pages
  and completions and the processes of the host are the crates' and the system's;
  what the program adds is the log level, the choice of the command and the path of
  the exchange command into the set-up.
\<close>

section \<open>Arguments\<close>

datatype level_filter = Off | Error_Level | Warn | Info | Debug | Trace

datatype manpage_selection = Sel_Daisyway | Sel_Exchange | Sel_Manpage | Sel_ExportManpages
  | Sel_ShellCompletion | Sel_Help

record manpage_command =
  selection :: manpage_selection
  dont_invoke_man :: bool

record export_manpages_command =
  destination :: string

text \<open>A shell of \<open>clap_complete\<close>, by number.\<close>

record shell_completion =
  completion_shell :: nat

record exchange_command =
  config_path :: string

datatype commands = Exchange exchange_command | Manpage manpage_command
  | ExportManpages export_manpages_command | ShellCompletion shell_completion

record cli =
  command :: "commands option"
  log_level :: "level_filter option"
  verbose :: bool
  quiet :: bool

section \<open>Logging\<close>

definition log_level_filter :: "cli \<Rightarrow> level_filter option" where
  "log_level_filter c = (if verbose c then Some Info
     else if quiet c then Some Warn
     else case log_level c of Some level \<Rightarrow> Some level | None \<Rightarrow> None)"

text \<open>
  The level set for all modules: \<open>from_env\<close> is the builder's reading of the
  environment, \<open>rust_log\<close> the variable \<open>RUST_LOG\<close> if it is set to valid text.
  Later calls of \<open>filter_level\<close> replace earlier ones.
\<close>

definition init_logging ::
  "level_filter option \<Rightarrow> string option \<Rightarrow> (level_filter option \<Rightarrow> unit outcome) \<Rightarrow> cli
     \<Rightarrow> level_filter option outcome" where
  "init_logging from_env rust_log try_init c =
     (let level = from_env;
          level = (if rust_log = None then Some Warn else level);
          level = (case log_level_filter c of Some flt \<Rightarrow> Some flt | None \<Rightarrow> level)
      in bind_outcome (try_init level) (\<lambda>_. Ok level))"

section \<open>Manual pages\<close>

text \<open>A command of \<open>clap\<close> with its subcommands by name.\<close>

record 'd clap_command =
  clap_doc :: 'd
  subcommands :: "(string \<times> 'd) list"

definition find_subcommand :: "'d clap_command \<Rightarrow> string \<Rightarrow> 'd option" where
  "find_subcommand cmd name = map_of (subcommands cmd) name"

definition selected_command :: "manpage_command \<Rightarrow> 'd clap_command \<Rightarrow> 'd option" where
  "selected_command mc cmd = (case selection mc of
       Sel_Daisyway \<Rightarrow> Some (clap_doc cmd)
     | Sel_Exchange \<Rightarrow> find_subcommand cmd ''exchange''
     | Sel_Manpage \<Rightarrow> find_subcommand cmd ''manpage''
     | Sel_ExportManpages \<Rightarrow> find_subcommand cmd ''export-manpages''
     | Sel_ShellCompletion \<Rightarrow> find_subcommand cmd ''shell-completion''
     | Sel_Help \<Rightarrow> find_subcommand cmd ''help'')"

text \<open>The crates and processes behind the documentation commands.\<close>

record 'd doc_ops =
  clap_built :: "'d clap_command"
  render_man :: "'d \<Rightarrow> byte list outcome"
  print_stdout :: "byte list \<Rightarrow> unit outcome"
  man_spawn :: "unit outcome"
  man_stdin :: "unit option"
  man_write :: "byte list \<Rightarrow> unit outcome"
  man_wait :: "(bool \<times> nat option) outcome"
  generate_to :: "string \<Rightarrow> unit outcome"
  current_exe :: "string option outcome"
  generate_completion :: "nat \<Rightarrow> string \<Rightarrow> unit outcome"

definition exit_code :: "nat option \<Rightarrow> fmt_arg" where
  "exit_code c = (case c of None \<Rightarrow> Str ''None'' | Some n \<Rightarrow> Num n)"

definition manpage_run :: "'d doc_ops \<Rightarrow> manpage_command \<Rightarrow> unit outcome" where
  "manpage_run D mc = (case selected_command mc (clap_built D) of
       None \<Rightarrow> Panic ''Could not retrieve command for manpage''
     | Some cmd \<Rightarrow>
         (if dont_invoke_man mc
          then bind_outcome (render_man D cmd) (print_stdout D)
          else bind_outcome (context_outcome ''Failed to start `man` command.'' [] (man_spawn D)) (\<lambda>_.
            bind_outcome (render_man D cmd) (\<lambda>buf.
            (case man_stdin D of
               None \<Rightarrow> Panic ''Stdout missing from manpage command. This is a bug''
             | Some _ \<Rightarrow>
                 bind_outcome (man_write D buf) (\<lambda>_.
                 bind_outcome (man_wait D) (\<lambda>(success, code).
                   if success then Ok ()
                   else Err (Fmt ''`man` command exited unsuccessfully, with exit code {:?}'' [exit_code code]))))))))"

definition export_manpages_run :: "'d doc_ops \<Rightarrow> export_manpages_command \<Rightarrow> unit outcome" where
  "export_manpages_run D cmd = bind_outcome (generate_to D (destination cmd)) (\<lambda>_. Ok ())"

definition shell_completion_run :: "'d doc_ops \<Rightarrow> shell_completion \<Rightarrow> unit outcome" where
  "shell_completion_run D cmd =
     bind_outcome (unwrap_outcome ''called Result::unwrap() on an Err value'' (current_exe D)) (\<lambda>exe.
       (case exe of
          None \<Rightarrow> Panic ''Could not convert command binary name to string? UTF-8 woes?''
        | Some bin_name \<Rightarrow> bind_outcome (generate_completion D (completion_shell cmd) bin_name) (\<lambda>_. Ok ())))"

section \<open>Commands\<close>

text \<open>
  \<open>exchange\<close> is the running participant if the set-up succeeds; the other
  commands only return. The environment of the participant's event loop: the handler
  of the output key, the crates, the binding of the listener, what the connection
  attempts and the server's \<open>select!\<close> yield, and the world the client acts on.
\<close>

record ('s, 'e, 'w) run_env =
  run_set_osk :: "(started_deadman, 'w) set_osk"
  run_crates :: "'s crates"
  run_bind_listener :: "string \<Rightarrow> unit outcome"
  run_attempts :: "('s outcome \<times> nat) list"
  run_selected :: "'s selected list"
  run_world :: "('e, 'w) client_world"

definition run_event_loop ::
  "bool \<Rightarrow> ('s, 'e, 'w) run_env \<Rightarrow> 'e daisyway \<Rightarrow> (started_deadman, 's, 'e, 'w) participant_run" where
  "run_event_loop overflow_checks R d = daisyway_event_loop overflow_checks (run_set_osk R) (run_crates R)
     (run_bind_listener R) d (run_attempts R) (run_selected R) (run_world R)"

datatype ('s, 'e, 'w) command_run = Finished "unit outcome"
  | Exchanging "'e daisyway" "(started_deadman, 's, 'e, 'w) participant_run"

definition exchange_run ::
  "base64_ops \<Rightarrow> bool \<Rightarrow> ('e, 'k) host \<Rightarrow> (string \<Rightarrow> string outcome) \<Rightarrow> (string \<Rightarrow> daisyway_config outcome)
     \<Rightarrow> ('s, 'e, 'w) run_env \<Rightarrow> exchange_command \<Rightarrow> ('s, 'e, 'w) command_run option" where
  "exchange_run B overflow_checks env read_to_string toml_from_str R cmd =
     (case load_from_file read_to_string toml_from_str (config_path cmd) of
        Err e \<Rightarrow> Some (Finished (Err e))
      | Panic m \<Rightarrow> Some (Finished (Panic m))
      | Ok config \<Rightarrow>
          map_option (\<lambda>started. case started of
              Ok d \<Rightarrow> Exchanging d (run_event_loop overflow_checks R d)
            | Err e \<Rightarrow> Finished (Err e)
            | Panic m \<Rightarrow> Finished (Panic m))
            (daisyway_from_config B overflow_checks env config False))"

definition commands_run ::
  "base64_ops \<Rightarrow> bool \<Rightarrow> ('e, 'k) host \<Rightarrow> (string \<Rightarrow> string outcome) \<Rightarrow> (string \<Rightarrow> daisyway_config outcome)
     \<Rightarrow> ('s, 'e, 'w) run_env \<Rightarrow> 'd doc_ops \<Rightarrow> commands \<Rightarrow> ('s, 'e, 'w) command_run option" where
  "commands_run B overflow_checks env read_to_string toml_from_str R D cmd = (case cmd of
       Exchange ec \<Rightarrow> exchange_run B overflow_checks env read_to_string toml_from_str R ec
     | Manpage mc \<Rightarrow> Some (Finished (manpage_run D mc))
     | ExportManpages em \<Rightarrow> Some (Finished (export_manpages_run D em))
     | ShellCompletion sc \<Rightarrow> Some (Finished (shell_completion_run D sc)))"

definition cli_run ::
  "base64_ops \<Rightarrow> bool \<Rightarrow> ('e, 'k) host \<Rightarrow> (string \<Rightarrow> string outcome) \<Rightarrow> (string \<Rightarrow> daisyway_config outcome)
     \<Rightarrow> ('s, 'e, 'w) run_env \<Rightarrow> 'd doc_ops \<Rightarrow> cli \<Rightarrow> ('s, 'e, 'w) command_run option" where
  "cli_run B overflow_checks env read_to_string toml_from_str R D c = (case command c of
       Some cmd \<Rightarrow> commands_run B overflow_checks env read_to_string toml_from_str R D cmd
     | None \<Rightarrow> Some (Finished (Err (Fmt ''No command specified'' []))))"

text \<open>\<open>main\<close> on parsed arguments: logging first, then the command.\<close>

definition main ::
  "base64_ops \<Rightarrow> bool \<Rightarrow> ('e, 'k) host \<Rightarrow> (string \<Rightarrow> string outcome) \<Rightarrow> (string \<Rightarrow> daisyway_config outcome)
     \<Rightarrow> ('s, 'e, 'w) run_env \<Rightarrow> 'd doc_ops \<Rightarrow> level_filter option \<Rightarrow> string option
     \<Rightarrow> (level_filter option \<Rightarrow> unit outcome) \<Rightarrow> cli \<Rightarrow> ('s, 'e, 'w) command_run option" where
  "main B overflow_checks env read_to_string toml_from_str R D from_env rust_log try_init c =
     (case init_logging from_env rust_log try_init c of
        Ok _ \<Rightarrow> cli_run B overflow_checks env read_to_string toml_from_str R D c
      | Err e \<Rightarrow> Some (Finished (Err e))
      | Panic m \<Rightarrow> Some (Finished (Panic m)))"

section \<open>Properties\<close>

text \<open>
  The level at which the program logs: the command line decides before
  \<open>RUST_LOG\<close>, and without either it is \<open>Warn\<close>. The option \<open>--verbose\<close>
  gives \<open>Info\<close> (its help text promises debug) and \<open>--quiet\<close> gives
  \<open>Warn\<close> (its help text promises error).
\<close>

lemma logging_level:
  "init_logging from_env rust_log (\<lambda>l. Ok ()) c = Ok (
     if verbose c then Some Info else if quiet c then Some Warn
     else if log_level c \<noteq> None then log_level c
     else if rust_log = None then Some Warn else from_env)"
  by (auto simp: init_logging_def log_level_filter_def split: option.splits)

text \<open>
  C36: the program exchanges keys only on request and with a valid set-up: it does
  so, once logging is set up, exactly when the parsed command is \<open>exchange\<close>, the
  configuration file could be read and parsed, and the set-up succeeded with it; what
  it does then is the event loop of the participant that the set-up returned.
\<close>

theorem exchange_only_when_set_up:
  "main B oc env rd toml R D from_env rust_log (\<lambda>l. Ok ()) c = Some (Exchanging d r) \<longleftrightarrow>
     (\<exists>ec text cfg. command c = Some (Exchange ec) \<and> rd (config_path ec) = Ok text \<and> toml text = Ok cfg
        \<and> daisyway_from_config B oc env cfg False = Some (Ok d) \<and> r = daisyway_event_loop oc (run_set_osk R) (run_crates R)
             (run_bind_listener R) d (run_attempts R) (run_selected R) (run_world R))"
proof -
  have started: "map_option (\<lambda>st. case st of Ok d \<Rightarrow> Exchanging d (run_event_loop oc R d) | Err e \<Rightarrow> Finished (Err e)
      | Panic m \<Rightarrow> Finished (Panic m)) x = Some (Exchanging d r) \<longleftrightarrow> x = Some (Ok d) \<and> r = run_event_loop oc R d" for x
    by (cases x) (auto split: outcome.splits)
  have "exchange_run B oc env rd toml R ec = Some (Exchanging d r) \<longleftrightarrow>
     (\<exists>text cfg. rd (config_path ec) = Ok text \<and> toml text = Ok cfg
        \<and> daisyway_from_config B oc env cfg False = Some (Ok d) \<and> r = run_event_loop oc R d)" for ec
    by (cases "rd (config_path ec)") (auto simp: exchange_run_def load_from_file_def started simp del: map_option_eq_Some split: outcome.splits)
  then show ?thesis
    by (auto simp: run_event_loop_def main_def init_logging_def Let_def cli_run_def commands_run_def split: option.splits commands.splits)
qed

end
