(* ===== verification/Session.thy ===== *)
theory Session
  imports Protocol
begin

text \<open>
  One connection seen from outside: the server side and the client side of
  \<open>Protocol\<close> run against each other over a reliable byte stream. Each side may
  be ended at any time (a lost connection, an aborted task, a stopped process), a
  write may break off after any number of bytes, and other users of the key server
  interleave with the session. The invariant of the step relation gives the
  agreement of the two sides on the keys they install.
\<close>

section \<open>A reliable stream in memory\<close>

text \<open>
  One end of a connection: the bytes that have arrived, the bytes under way to the
  other end, and how many more bytes can be written before the connection breaks.
\<close>

record mem_stream =
  incoming :: "byte list"
  outgoing :: "byte list"
  quota :: "nat option"

definition mem_read_exact :: "nat \<Rightarrow> mem_stream \<Rightarrow> byte list outcome \<times> mem_stream" where
  "mem_read_exact n s = (if n \<le> length (incoming s)
     then (Ok (take n (incoming s)), s\<lparr>incoming := drop n (incoming s)\<rparr>)
     else (Err (Io UnexpectedEof), s\<lparr>incoming := []\<rparr>))"

definition mem_write_all :: "byte list \<Rightarrow> mem_stream \<Rightarrow> unit outcome \<times> mem_stream" where
  "mem_write_all bs s = (case quota s of
       None \<Rightarrow> (Ok (), s\<lparr>outgoing := outgoing s @ bs\<rparr>)
     | Some q \<Rightarrow> (if length bs \<le> q
         then (Ok (), s\<lparr>outgoing := outgoing s @ bs, quota := Some (q - length bs)\<rparr>)
         else (Err (Io (Other_io 1)), s\<lparr>outgoing := outgoing s @ take q bs, quota := Some 0\<rparr>)))"

definition mem_io :: "mem_stream stream_ops" where
  "mem_io = \<lparr>read_exact = mem_read_exact, write_all = mem_write_all\<rparr>"

section \<open>The joint steps\<close>

datatype server_phase = Server_Idle | Server_Waiting "etsi014_key \<times> nonce" | Server_Installing key | Server_Ended
datatype client_phase = Client_Idle | Client_Installing key | Client_Ended

record ('e, 'v, 'w) session =
  to_client :: "byte list"
  to_server :: "byte list"
  server_quota :: "nat option"
  client_quota :: "nat option"
  kme :: 'e
  server_sink :: 'v
  client_sink :: 'w
  server_at :: server_phase
  client_at :: client_phase
  server_keys :: "key list"
  client_keys :: "key list"

text \<open>What each side sees of the session, and the session after a side has acted.\<close>

definition server_view :: "('e, 'v, 'w) session \<Rightarrow> (mem_stream, 'e, 'v) party_world" where
  "server_view s = \<lparr>stream_of = \<lparr>incoming = to_server s, outgoing = to_client s, quota = server_quota s\<rparr>,
     etsi_of = kme s, osk_of = server_sink s, elapsed = 0\<rparr>"

definition server_put ::
  "(mem_stream, 'e, 'v) party_world \<Rightarrow> ('e, 'v, 'w) session \<Rightarrow> ('e, 'v, 'w) session" where
  "server_put w s = s\<lparr>to_server := incoming (stream_of w), to_client := outgoing (stream_of w),
     server_quota := quota (stream_of w), kme := etsi_of w, server_sink := osk_of w\<rparr>"

definition client_view :: "('e, 'v, 'w) session \<Rightarrow> (mem_stream, 'e, 'w) party_world" where
  "client_view s = \<lparr>stream_of = \<lparr>incoming = to_client s, outgoing = to_server s, quota = client_quota s\<rparr>,
     etsi_of = kme s, osk_of = client_sink s, elapsed = 0\<rparr>"

definition client_put ::
  "(mem_stream, 'e, 'w) party_world \<Rightarrow> ('e, 'v, 'w) session \<Rightarrow> ('e, 'v, 'w) session" where
  "client_put w s = s\<lparr>to_client := incoming (stream_of w), to_server := outgoing (stream_of w),
     client_quota := quota (stream_of w), kme := etsi_of w, client_sink := osk_of w\<rparr>"

text \<open>
  A read waits until its bytes have arrived or the other side has ended. The
  relation \<open>other\<close> is what further users of the key server do to its state.
\<close>

inductive session_step ::
  "('h, 'v) set_osk \<Rightarrow> ('g, 'w) set_osk \<Rightarrow> mem_stream crates \<Rightarrow> ('h, 'e) daisyway_server_protocol
     \<Rightarrow> ('g, 'e) daisyway_client_protocol \<Rightarrow> ('e \<Rightarrow> 'e \<Rightarrow> bool)
     \<Rightarrow> ('e, 'v, 'w) session \<Rightarrow> ('e, 'v, 'w) session \<Rightarrow> bool"
  for server_set_osk client_set_osk C srv cl other where
  request: "server_at s = Server_Idle \<Longrightarrow> is_key n \<Longrightarrow>
    negotiate_request C srv n (server_view s) = (r, w) \<Longrightarrow>
    session_step server_set_osk client_set_osk C srv cl other s
      ((server_put w s)\<lparr>server_at := (case r of Ok kn \<Rightarrow> Server_Waiting kn | _ \<Rightarrow> Server_Ended)\<rparr>)"
| acknowledged: "server_at s = Server_Waiting kn \<Longrightarrow>
    REKEY_ACK_LENGTH \<le> length (to_server s) \<or> client_at s = Client_Ended \<Longrightarrow>
    negotiate_ack C srv kn (server_view s) = (r, w) \<Longrightarrow>
    session_step server_set_osk client_set_osk C srv cl other s
      ((server_put w s)\<lparr>server_at := (case r of Ok k \<Rightarrow> Server_Installing k | _ \<Rightarrow> Server_Ended)\<rparr>)"
| server_installs: "server_at s = Server_Installing k \<Longrightarrow>
    set_fresh_osk server_set_osk (srv_osk_handler srv) k (server_sink s) = (Ok (), w) \<Longrightarrow>
    session_step server_set_osk client_set_osk C srv cl other s
      (s\<lparr>server_sink := w, server_at := Server_Idle, server_keys := server_keys s @ [k]\<rparr>)"
| negotiates: "client_at s = Client_Idle \<Longrightarrow>
    REKEY_REQ_LENGTH \<le> length (to_client s) \<or> server_at s = Server_Ended \<Longrightarrow>
    wait_for_key_negotiation C cl (client_view s) = (r, w) \<Longrightarrow>
    session_step server_set_osk client_set_osk C srv cl other s
      ((client_put w s)\<lparr>client_at := (case r of Ok k \<Rightarrow> Client_Installing k | _ \<Rightarrow> Client_Ended)\<rparr>)"
| client_installs: "client_at s = Client_Installing k \<Longrightarrow>
    set_fresh_osk client_set_osk (cl_osk_handler cl) k (client_sink s) = (Ok (), w) \<Longrightarrow>
    session_step server_set_osk client_set_osk C srv cl other s
      (s\<lparr>client_sink := w, client_at := Client_Idle, client_keys := client_keys s @ [k]\<rparr>)"
| server_ends: "session_step server_set_osk client_set_osk C srv cl other s
      (s\<lparr>server_sink := w, server_at := Server_Ended\<rparr>)"
| client_ends: "session_step server_set_osk client_set_osk C srv cl other s
      (s\<lparr>client_sink := w, client_at := Client_Ended\<rparr>)"
| key_server: "other (kme s) e \<Longrightarrow>
    session_step server_set_osk client_set_osk C srv cl other s (s\<lparr>kme := e\<rparr>)"

definition session_start :: "nat option \<Rightarrow> nat option \<Rightarrow> 'e \<Rightarrow> 'v \<Rightarrow> 'w \<Rightarrow> ('e, 'v, 'w) session" where
  "session_start sq cq e v w = \<lparr>to_client = [], to_server = [], server_quota = sq, client_quota = cq,
     kme = e, server_sink = v, client_sink = w, server_at = Server_Idle, client_at = Client_Idle,
     server_keys = [], client_keys = []\<rparr>"

text \<open>
  The steps of a side are its event loop cut where it waits for the other side: a
  round of the client whose request has arrived is two steps of the session, and a
  round of the server whose answer is there when it waits for it is three, in which
  the session does what the round does. The pause of the server has no part in a
  session.
\<close>

lemma client_round_steps:
  assumes "client_at s = Client_Idle" "REKEY_REQ_LENGTH \<le> length (to_client s)"
    and "client_round cs C cl (client_view s) = (Ok (), w)"
  shows "\<exists>k. (session_step ss cs C srv cl other)\<^sup>*\<^sup>* s
     ((client_put w s)\<lparr>client_at := Client_Idle, client_keys := client_keys s @ [k]\<rparr>)"
proof -
  obtain k w1 where neg: "wait_for_key_negotiation C cl (client_view s) = (Ok k, w1)"
    and set: "on_osk (set_fresh_osk cs (cl_osk_handler cl) k) w1 = (Ok (), w)"
    using assms(3) by (auto simp: client_round_def outcome_inv simp del: on_simps)
  obtain v where v: "set_fresh_osk cs (cl_osk_handler cl) k (osk_of w1) = (Ok (), v)" "w = w1\<lparr>osk_of := v\<rparr>"
    using set by (cases "set_fresh_osk cs (cl_osk_handler cl) k (osk_of w1)") auto
  let ?s1 = "(client_put w1 s)\<lparr>client_at := Client_Installing k\<rparr>"
  have "session_step ss cs C srv cl other s ?s1"
    using session_step.negotiates [OF assms(1) disjI1 [OF assms(2)] neg] by simp
  moreover have "session_step ss cs C srv cl other ?s1
      (?s1\<lparr>client_sink := v, client_at := Client_Idle, client_keys := client_keys ?s1 @ [k]\<rparr>)"
    by (rule session_step.client_installs) (use v(1) in \<open>simp_all add: client_put_def\<close>)
  ultimately show ?thesis
    using v(2) by (intro exI [of _ k]) (simp add: client_put_def rtranclp.rtrancl_into_rtrancl)
qed

lemma server_round_steps:
  assumes "server_at s = Server_Idle" "is_key n"
    and "server_round ss C srv n (server_view s) = (Ok (), w)"
    and "\<And>kn w1. negotiate_request C srv n (server_view s) = (Ok kn, w1) \<Longrightarrow>
           REKEY_ACK_LENGTH \<le> length (incoming (stream_of w1))"
  shows "\<exists>k. (session_step ss cs C srv cl other)\<^sup>*\<^sup>* s
     ((server_put w s)\<lparr>server_at := Server_Idle, server_keys := server_keys s @ [k]\<rparr>)"
proof -
  obtain k w2 v where neg: "negotiate_key C srv n (server_view s) = (Ok k, w2)"
    and v: "ss (srv_osk_handler srv) k Fresh (osk_of w2) = (Ok (), v)"
      "w = sleep (srv_rekey_interval srv) (w2\<lparr>osk_of := v\<rparr>)"
    using assms(3) by (auto simp: server_round_Ok)
  obtain kn w1 where req: "negotiate_request C srv n (server_view s) = (Ok kn, w1)"
    and ack: "negotiate_ack C srv kn w1 = (Ok k, w2)"
    using neg by (auto simp: negotiate_key_def outcome_inv)
  let ?s1 = "(server_put w1 s)\<lparr>server_at := Server_Waiting kn\<rparr>"
  let ?s2 = "(server_put w2 ?s1)\<lparr>server_at := Server_Installing k\<rparr>"
  have "elapsed w1 = 0" using negotiate_request_elapsed [OF req] by (simp add: server_view_def)
  then have view: "server_view ?s1 = w1" by (simp add: server_view_def server_put_def)
  have "session_step ss cs C srv cl other s ?s1"
    using session_step.request [OF assms(1,2) req] by simp
  moreover have "session_step ss cs C srv cl other ?s1 ?s2"
    using session_step.acknowledged [of ?s1 kn C srv "Ok k" w2 ss cs cl other] ack assms(4) [OF req]
    unfolding view by (simp add: server_put_def)
  moreover have "session_step ss cs C srv cl other ?s2
      (?s2\<lparr>server_sink := v, server_at := Server_Idle, server_keys := server_keys ?s2 @ [k]\<rparr>)"
    by (rule session_step.server_installs) (use v(1) in \<open>simp_all add: server_put_def set_fresh_osk_def\<close>)
  ultimately have "(session_step ss cs C srv cl other)\<^sup>*\<^sup>* s
      (?s2\<lparr>server_sink := v, server_at := Server_Idle, server_keys := server_keys ?s2 @ [k]\<rparr>)"
    by (meson rtranclp.rtrancl_into_rtrancl rtranclp.rtrancl_refl)
  then show ?thesis
    using v(2) by (intro exI [of _ k]) (simp add: server_put_def sleep_def)
qed

section \<open>The key server contract\<close>

text \<open>
  What the peers rely on in the key management entities of a QKD link (ETSI GS QKD
  014, Get key and Get key with key IDs): \<open>holds e k\<close> says that the link has
  delivered \<open>k\<close> to the server's side and keeps it for the client's side. Other
  users do not take keys away.
\<close>

locale qkd_link =
  fixes B :: base64_ops and U :: uuid_ops
    and sconn :: "'e etsi014_connection" and cconn :: "'e etsi014_connection"
    and other :: "'e \<Rightarrow> 'e \<Rightarrow> bool"
    and holds :: "'e \<Rightarrow> etsi014_key \<Rightarrow> bool"
  assumes get_key: "fetch_any_key B sconn e = (Ok k, e') \<Longrightarrow> wf_etsi014_key k \<and> holds e' k"
    and get_key_with_id: "holds e k \<Longrightarrow>
          fetch_specific_key B U cconn (key_id k) e = (Ok k', e') \<Longrightarrow> k' = k"
    and other_holds: "other e e' \<Longrightarrow> holds e k \<Longrightarrow> holds e' k"

text \<open>Two lists of keys that differ by at most one key at the end of one of them.\<close>

definition in_step :: "key list \<Rightarrow> key list \<Rightarrow> bool" where
  "in_step xs ys \<longleftrightarrow> (prefix xs ys \<and> length ys \<le> Suc (length xs))
     \<or> (prefix ys xs \<and> length xs \<le> Suc (length ys))"

lemma in_step_simps [simp]:
  "in_step xs xs" "in_step xs (xs @ [k])" "in_step (xs @ [k]) xs"
  by (auto simp: in_step_def)

section \<open>What each half of a negotiation does to the stream\<close>

lemma mem_write_all_cases:
  obtains q where "mem_write_all bs s = (Ok (), s\<lparr>outgoing := outgoing s @ bs, quota := q\<rparr>)"
  | e m where "m < length bs"
    "mem_write_all bs s = (Err e, s\<lparr>outgoing := outgoing s @ take m bs, quota := Some 0\<rparr>)"
proof (cases "quota s")
  case None
  then have "mem_write_all bs s = (Ok (), s\<lparr>outgoing := outgoing s @ bs, quota := None\<rparr>)"
    by (simp add: mem_write_all_def)
  then show thesis by (rule that(1))
next
  case (Some q)
  show thesis
  proof (cases "length bs \<le> q")
    case True
    with Some that(1) [of "Some (q - length bs)"] show thesis by (simp add: mem_write_all_def)
  next
    case False
    with Some that(2) [of q] show thesis by (simp add: mem_write_all_def)
  qed
qed

lemma negotiate_request_mem:
  assumes "io C = mem_io" "negotiate_request C srv n w = (r, w')"
  obtains (Sent) k e' q where "r = Ok (k, n)"
      "fetch_any_key (b64 C) (srv_etsi_client srv) (etsi_of w) = (Ok k, e')"
      "w' = w\<lparr>stream_of := (stream_of w)\<lparr>outgoing := outgoing (stream_of w)
                @ rekey_req_as_bytes (rekey_req_new n (key_id k)), quota := q\<rparr>, etsi_of := e'\<rparr>"
  | (Broken) e k e' m q where "r = Err e"
      "fetch_any_key (b64 C) (srv_etsi_client srv) (etsi_of w) = (Ok k, e')"
      "m < length (rekey_req_as_bytes (rekey_req_new n (key_id k)))"
      "w' = w\<lparr>stream_of := (stream_of w)\<lparr>outgoing := outgoing (stream_of w)
                @ take m (rekey_req_as_bytes (rekey_req_new n (key_id k))), quota := q\<rparr>, etsi_of := e'\<rparr>"
  | (Unfetched) e' where "\<not> is_Ok r" "w' = w\<lparr>etsi_of := e'\<rparr>"
proof -
  obtain f e' where f: "fetch_any_key (b64 C) (srv_etsi_client srv) (etsi_of w) = (f, e')" by fastforce
  show thesis
  proof (cases f)
    case (Ok k)
    show thesis
    proof (cases rule: mem_write_all_cases [of "rekey_req_as_bytes (rekey_req_new n (key_id k))" "stream_of w"])
      case (1 q)
      with assms f Ok show thesis
        by (intro Sent [of k e' q])
          (auto simp: negotiate_request_def mem_io_def rekey_req_new_def)
    next
      case (2 e m)
      with assms f Ok show thesis
        by (intro Broken [of _ k e' m "Some 0"])
          (auto simp: negotiate_request_def mem_io_def)
    qed
  qed (use assms f in \<open>auto simp: negotiate_request_def intro: Unfetched\<close>)
qed

lemma negotiate_ack_mem:
  assumes "io C = mem_io"
  shows "incoming (stream_of w) = [1] \<Longrightarrow> negotiate_ack C srv kn w =
      (Ok (derive_daisyway_key (uuids C) (shake C) (srv_params srv) (snd kn) (fst kn)),
       w\<lparr>stream_of := (stream_of w)\<lparr>incoming := []\<rparr>\<rparr>)"
    and "incoming (stream_of w) = [] \<Longrightarrow> \<exists>e. negotiate_ack C srv kn w = (Err e, w)"
  using assms by (auto simp: negotiate_ack_def mem_io_def mem_read_exact_def REKEY_ACK_LENGTH_def
      rekey_ack_of_bytes_def rekey_ack_validate_def REKEY_ACK_def)

lemma wait_short_mem:
  assumes "io C = mem_io" "length (incoming (stream_of w)) < REKEY_REQ_LENGTH"
  shows "\<exists>e. wait_for_key_negotiation C cl w = (Err e, w\<lparr>stream_of := (stream_of w)\<lparr>incoming := []\<rparr>\<rparr>)"
  using assms by (simp add: wait_for_key_negotiation_def mem_io_def mem_read_exact_def)

lemma wait_request_mem:
  assumes "io C = mem_io" "wf_rekey_req q" "incoming (stream_of w) = rekey_req_as_bytes q"
    and "wait_for_key_negotiation C cl w = (r, w')"
  obtains (Acked) k e' z where
      "fetch_specific_key (b64 C) (uuids C) (cl_etsi_client cl) (req_qkd_key_id q) (etsi_of w) = (Ok k, e')"
      "r = Ok (derive_daisyway_key (uuids C) (shake C) (cl_params cl) (req_nonce q) k)"
      "w' = w\<lparr>stream_of := (stream_of w)\<lparr>incoming := [], outgoing := outgoing (stream_of w) @ [1], quota := z\<rparr>,
              etsi_of := e'\<rparr>"
  | (Failed) e' z where "\<not> is_Ok r"
      "w' = w\<lparr>stream_of := (stream_of w)\<lparr>incoming := [], quota := z\<rparr>, etsi_of := e'\<rparr>"
proof -
  let ?s = "(stream_of w)\<lparr>incoming := []\<rparr>"
  obtain f e' where f: "fetch_specific_key (b64 C) (uuids C) (cl_etsi_client cl) (req_qkd_key_id q)
      (etsi_of w) = (f, e')" by fastforce
  have rd: "mem_read_exact REKEY_REQ_LENGTH (stream_of w) = (Ok (rekey_req_as_bytes q), ?s)"
    using assms(2,3) by (simp add: mem_read_exact_def length_rekey_req)
  note step = assms(4) [unfolded wait_for_key_negotiation_def assms(1) mem_io_def]
  have ack: "rekey_ack_as_bytes REKEY_ACK = [1]" by (simp add: rekey_ack_as_bytes_def REKEY_ACK_def)
  show thesis
  proof (cases f)
    case (Ok k)
    show thesis
    proof (cases rule: mem_write_all_cases [of "[1]" ?s])
      case (1 z)
      with step f Ok rd ack assms(2) show thesis
        by (intro Acked [of k e' z]) (auto simp: rekey_req_roundtrip)
    next
      case (2 e m)
      with step f Ok rd ack assms(2) show thesis
        by (intro Failed [of e' "Some 0"]) (auto simp: rekey_req_roundtrip)
    qed
  qed (use step f rd assms(2) in
      \<open>auto simp: rekey_req_roundtrip intro: Failed [of e' "quota (stream_of w)"]\<close>)
qed

section \<open>The invariant of a session\<close>

definition client_negotiated :: "('e, 'v, 'w) session \<Rightarrow> key list" where
  "client_negotiated s = client_keys s @ (case client_at s of Client_Installing k \<Rightarrow> [k] | _ \<Rightarrow> [])"

definition req_bytes :: "etsi014_key \<times> nonce \<Rightarrow> byte list" where
  "req_bytes kn = rekey_req_as_bytes (rekey_req_new (snd kn) (key_id (fst kn)))"

definition wf_offer :: "etsi014_key \<times> nonce \<Rightarrow> bool" where
  "wf_offer kn \<longleftrightarrow> wf_etsi014_key (fst kn) \<and> is_key (snd kn)"

definition offer_open ::
  "('e \<Rightarrow> etsi014_key \<Rightarrow> bool) \<Rightarrow> etsi014_key \<times> nonce \<Rightarrow> ('e, 'v, 'w) session \<Rightarrow> bool" where
  "offer_open holds kn s \<longleftrightarrow> wf_offer kn \<and> to_client s = req_bytes kn \<and> to_server s = []
     \<and> client_negotiated s = server_keys s \<and> holds (kme s) (fst kn)"

definition session_inv ::
  "('e \<Rightarrow> etsi014_key \<Rightarrow> bool) \<Rightarrow> (etsi014_key \<times> nonce \<Rightarrow> key) \<Rightarrow> ('e, 'v, 'w) session \<Rightarrow> bool" where
  "session_inv holds derive s \<longleftrightarrow> (if client_at s = Client_Ended
     then in_step (server_keys s) (client_keys s) \<and> (case server_at s of
         Server_Idle \<Rightarrow> to_server s = []
       | Server_Installing k \<Rightarrow> to_server s = [] \<and> in_step (server_keys s @ [k]) (client_keys s)
       | Server_Waiting kn \<Rightarrow> to_server s = []
           \<or> to_server s = [1] \<and> in_step (server_keys s @ [derive kn]) (client_keys s)
       | Server_Ended \<Rightarrow> True)
     else (case server_at s of
         Server_Idle \<Rightarrow> to_client s = [] \<and> to_server s = [] \<and> client_negotiated s = server_keys s
       | Server_Installing k \<Rightarrow> to_client s = [] \<and> to_server s = []
           \<and> client_negotiated s = server_keys s @ [k]
       | Server_Waiting kn \<Rightarrow> offer_open holds kn s
           \<or> to_client s = [] \<and> to_server s = [1] \<and> client_negotiated s = server_keys s @ [derive kn]
       | Server_Ended \<Rightarrow> (\<exists>kn. offer_open holds kn s)
           \<or> length (to_client s) < REKEY_REQ_LENGTH
             \<and> (client_negotiated s = server_keys s \<or> (\<exists>k. client_negotiated s = server_keys s @ [k]))))"

lemma wf_offer_req: "wf_offer kn \<Longrightarrow> wf_rekey_req (rekey_req_new (snd kn) (key_id (fst kn)))"
  by (simp add: wf_offer_def wf_rekey_req_def rekey_req_new_def wf_etsi014_key_def)

lemma length_req_bytes: "wf_offer kn \<Longrightarrow> length (req_bytes kn) = REKEY_REQ_LENGTH"
  by (simp add: req_bytes_def wf_offer_req length_rekey_req)

lemma negotiated_in_step:
  assumes "client_negotiated s = server_keys s \<or> (\<exists>k. client_negotiated s = server_keys s @ [k])"
  shows "in_step (server_keys s) (client_keys s)"
  using assms by (cases "client_at s") (auto simp: client_negotiated_def, metis in_step_simps(3))

lemma negotiated_in_step_last:
  assumes "client_negotiated s = server_keys s @ [k]"
  shows "in_step (server_keys s @ [k]) (client_keys s)"
  using assms by (cases "client_at s") (auto simp: client_negotiated_def)

lemma session_inv_in_step: "session_inv holds d s \<Longrightarrow> in_step (server_keys s) (client_keys s)"
  by (auto simp: session_inv_def offer_open_def intro: negotiated_in_step
      split: if_splits server_phase.splits)

text \<open>A session whose parties share a QKD link and are configured for one tunnel.\<close>

locale session_parties =
  qkd_link "b64 C" "uuids C" "srv_etsi_client srv" "cl_etsi_client cl" other holds
  for C :: "mem_stream crates" and srv :: "('h, 'e) daisyway_server_protocol"
    and cl :: "('g, 'e) daisyway_client_protocol"
    and other :: "'e \<Rightarrow> 'e \<Rightarrow> bool" and holds :: "'e \<Rightarrow> etsi014_key \<Rightarrow> bool" +
  assumes stream: "io C = mem_io"
    and tunnel: "mirrored (srv_params srv) (cl_params cl)"
begin

lemma offered_key_client:
  "derive_daisyway_key (uuids C) (shake C) (cl_params cl) n k = offered_key C srv (k, n)"
  using derive_mirrored [OF tunnel] by (simp add: offered_key_def)

lemma request_inv:
  assumes "session_inv holds (offered_key C srv) s" "server_at s = Server_Idle" "is_key n"
    and "negotiate_request C srv n (server_view s) = (r, w)"
  shows "session_inv holds (offered_key C srv) ((server_put w s)\<lparr>server_at :=
           (case r of Ok kn \<Rightarrow> Server_Waiting kn | _ \<Rightarrow> Server_Ended)\<rparr>)"
  using stream assms(4)
proof (cases rule: negotiate_request_mem)
  case (Sent k e' q)
  then have "wf_offer (k, n)" "holds e' k"
    using get_key assms(3) by (auto simp: wf_offer_def)
  with Sent assms(1,2) show ?thesis
    by (auto simp: session_inv_def offer_open_def server_put_def server_view_def req_bytes_def
        client_negotiated_def)
next
  case (Broken e k e' m q)
  then have "wf_offer (k, n)" using get_key assms(3) by (auto simp: wf_offer_def)
  then have "m < REKEY_REQ_LENGTH" using Broken(3) length_req_bytes [of "(k, n)"]
    by (simp add: req_bytes_def)
  with Broken assms(1,2) show ?thesis
    by (auto simp: session_inv_def server_put_def server_view_def client_negotiated_def min_def)
next
  case (Unfetched e')
  then show ?thesis using assms(1,2)
    by (cases r) (auto simp: session_inv_def server_put_def server_view_def client_negotiated_def
        REKEY_REQ_LENGTH_def)
qed

lemma acknowledged_inv:
  assumes "session_inv holds (offered_key C srv) s" "server_at s = Server_Waiting kn"
    and "REKEY_ACK_LENGTH \<le> length (to_server s) \<or> client_at s = Client_Ended"
    and "negotiate_ack C srv kn (server_view s) = (r, w)"
  shows "session_inv holds (offered_key C srv) ((server_put w s)\<lparr>server_at :=
           (case r of Ok k \<Rightarrow> Server_Installing k | _ \<Rightarrow> Server_Ended)\<rparr>)"
proof -
  consider "to_server s = [1]" | "to_server s = []" "client_at s = Client_Ended"
    using assms(1-3) by (auto simp: session_inv_def offer_open_def REKEY_ACK_LENGTH_def split: if_splits)
  then show ?thesis
  proof cases
    case 1
    then show ?thesis
      using negotiate_ack_mem(1) [OF stream, of "server_view s" srv kn] assms(1,2,4)
      by (auto simp: session_inv_def offer_open_def server_put_def server_view_def
          client_negotiated_def offered_key_def)
  next
    case 2
    then show ?thesis
      using negotiate_ack_mem(2) [OF stream, of "server_view s" srv kn] assms(1,2,4)
      by (auto simp: session_inv_def server_put_def server_view_def)
  qed
qed

lemma negotiates_inv:
  assumes "session_inv holds (offered_key C srv) s" "client_at s = Client_Idle"
    and "REKEY_REQ_LENGTH \<le> length (to_client s) \<or> server_at s = Server_Ended"
    and "wait_for_key_negotiation C cl (client_view s) = (r, w)"
  shows "session_inv holds (offered_key C srv) ((client_put w s)\<lparr>client_at :=
           (case r of Ok k \<Rightarrow> Client_Installing k | _ \<Rightarrow> Client_Ended)\<rparr>)"
proof -
  consider (offer) kn where "offer_open holds kn s" "server_at s = Server_Waiting kn \<or> server_at s = Server_Ended"
    | (short) "length (to_client s) < REKEY_REQ_LENGTH" "server_at s = Server_Ended"
    using assms(1-3) by (auto simp: session_inv_def REKEY_REQ_LENGTH_def split: server_phase.splits)
  then show ?thesis
  proof cases
    case short
    then obtain e where e: "wait_for_key_negotiation C cl (client_view s) =
        (Err e, (client_view s)\<lparr>stream_of := (stream_of (client_view s))\<lparr>incoming := []\<rparr>\<rparr>)"
      using wait_short_mem [OF stream, of "client_view s" cl] by (auto simp: client_view_def)
    have "in_step (server_keys s) (client_keys s)" by (rule session_inv_in_step [OF assms(1)])
    then show ?thesis using e assms(4) short(2)
      by (auto simp: session_inv_def client_put_def client_view_def)
  next
    case offer
    have inc: "incoming (stream_of (client_view s)) =
        rekey_req_as_bytes (rekey_req_new (snd kn) (key_id (fst kn)))" and wf: "wf_offer kn"
      using offer(1) by (auto simp: offer_open_def req_bytes_def client_view_def)
    show ?thesis
      using stream wf_offer_req [OF wf] inc assms(4)
    proof (cases rule: wait_request_mem)
      case (Acked k e' z)
      then have "k = fst kn"
        using offer(1) get_key_with_id [of "kme s" "fst kn"]
        by (auto simp: offer_open_def client_view_def rekey_req_new_def)
      with Acked offer assms(2) show ?thesis
        by (auto simp: session_inv_def offer_open_def client_put_def client_view_def
            client_negotiated_def offered_key_client rekey_req_new_def REKEY_REQ_LENGTH_def)
    next
      case (Failed e' z)
      have "in_step (server_keys s) (client_keys s)" by (rule session_inv_in_step [OF assms(1)])
      then show ?thesis using Failed offer
        by (cases r) (auto simp: session_inv_def offer_open_def client_put_def client_view_def)
    qed
  qed
qed

lemma installs_inv:
  assumes "session_inv holds d s"
  shows "server_at s = Server_Installing k \<Longrightarrow> session_inv holds d
           (s\<lparr>server_sink := v, server_at := Server_Idle, server_keys := server_keys s @ [k]\<rparr>)"
    and "client_at s = Client_Installing k \<Longrightarrow> session_inv holds d
           (s\<lparr>client_sink := w, client_at := Client_Idle, client_keys := client_keys s @ [k]\<rparr>)"
  using assms by (auto simp: session_inv_def offer_open_def client_negotiated_def split: server_phase.splits)

lemma server_ends_inv:
  assumes "session_inv holds d s"
  shows "session_inv holds d (s\<lparr>server_sink := v, server_at := Server_Ended\<rparr>)"
  using assms by (auto simp: session_inv_def offer_open_def client_negotiated_def REKEY_REQ_LENGTH_def
      split: server_phase.splits)

lemma client_ends_inv:
  assumes "session_inv holds d s"
  shows "session_inv holds d (s\<lparr>client_sink := w, client_at := Client_Ended\<rparr>)"
proof -
  have "in_step (server_keys s) (client_keys s)" by (rule session_inv_in_step [OF assms])
  then show ?thesis using assms negotiated_in_step_last [of s]
    by (auto simp: session_inv_def offer_open_def split: server_phase.splits if_splits)
qed

lemma key_server_inv:
  assumes "session_inv holds d s" "other (kme s) e"
  shows "session_inv holds d (s\<lparr>kme := e\<rparr>)"
proof -
  have "offer_open holds kn s \<Longrightarrow> offer_open holds kn (s\<lparr>kme := e\<rparr>)" for kn
    using other_holds [OF assms(2)] by (simp add: offer_open_def client_negotiated_def)
  moreover have "client_negotiated (s\<lparr>kme := e\<rparr>) = client_negotiated s"
    by (simp add: client_negotiated_def)
  ultimately show ?thesis using assms(1)
    by (auto simp: session_inv_def split: server_phase.splits if_splits)
qed

lemma session_step_inv:
  assumes "session_step ss cs C srv cl other s s'" "session_inv holds (offered_key C srv) s"
  shows "session_inv holds (offered_key C srv) s'"
  using assms
proof (cases rule: session_step.cases)
  case (request n r w)
  show ?thesis unfolding request(1) by (rule request_inv [OF assms(2) request(2-4)])
next
  case (acknowledged kn r w)
  show ?thesis unfolding acknowledged(1) by (rule acknowledged_inv [OF assms(2) acknowledged(2-4)])
next
  case (negotiates r w)
  show ?thesis unfolding negotiates(1) by (rule negotiates_inv [OF assms(2) negotiates(2-4)])
next
  case (server_installs k w)
  show ?thesis unfolding server_installs(1) by (rule installs_inv(1) [OF assms(2) server_installs(2)])
next
  case (client_installs k w)
  show ?thesis unfolding client_installs(1) by (rule installs_inv(2) [OF assms(2) client_installs(2)])
next
  case (server_ends w)
  show ?thesis unfolding server_ends(1) by (rule server_ends_inv [OF assms(2)])
next
  case (client_ends w)
  show ?thesis unfolding client_ends(1) by (rule client_ends_inv [OF assms(2)])
next
  case (key_server e)
  show ?thesis unfolding key_server(1) by (rule key_server_inv [OF assms(2) key_server(2)])
qed

lemma session_run_inv:
  assumes "(session_step ss cs C srv cl other)\<^sup>*\<^sup>* (session_start sq cq e v w) s"
  shows "session_inv holds (offered_key C srv) s"
  using assms
proof (induction rule: rtranclp_induct)
  case base
  show ?case by (simp add: session_start_def session_inv_def client_negotiated_def)
next
  case (step s s')
  then show ?case by (blast intro: session_step_inv)
qed

lemma idle_keys_equal:
  assumes "(session_step ss cs C srv cl other)\<^sup>*\<^sup>* (session_start sq cq e v w) s"
    and "server_at s = Server_Idle" "client_at s = Client_Idle"
  shows "server_keys s = client_keys s"
  using session_run_inv [OF assms(1)] assms(2,3)
  by (simp add: session_inv_def client_negotiated_def)

end

section \<open>What the targets hold\<close>

text \<open>
  While a side has not ended, its target holds the last key the side has installed,
  and the keys it is about to install are keys.
\<close>

definition server_target_ok ::
  "('h \<Rightarrow> 'v \<Rightarrow> key option) \<Rightarrow> ('h \<Rightarrow> 'v \<Rightarrow> bool) \<Rightarrow> 'h \<Rightarrow> ('e, 'v, 'w) session \<Rightarrow> bool" where
  "server_target_ok inst rdy h s \<longleftrightarrow> server_at s \<noteq> Server_Ended \<longrightarrow>
     rdy h (server_sink s)
     \<and> (server_keys s \<noteq> [] \<longrightarrow> inst h (server_sink s) = Some (last (server_keys s)))
     \<and> (\<forall>k. server_at s = Server_Installing k \<longrightarrow> is_key k)"

definition client_target_ok ::
  "('h \<Rightarrow> 'w \<Rightarrow> key option) \<Rightarrow> ('h \<Rightarrow> 'w \<Rightarrow> bool) \<Rightarrow> 'h \<Rightarrow> ('e, 'v, 'w) session \<Rightarrow> bool" where
  "client_target_ok inst rdy h s \<longleftrightarrow> client_at s \<noteq> Client_Ended \<longrightarrow>
     rdy h (client_sink s)
     \<and> (client_keys s \<noteq> [] \<longrightarrow> inst h (client_sink s) = Some (last (client_keys s)))
     \<and> (\<forall>k. client_at s = Client_Installing k \<longrightarrow> is_key k)"

lemma server_step_target:
  assumes "osk_sink ss inst rdy" "shake256 (shake C)"
    and "session_step ss cs C srv cl other s s'" "server_target_ok inst rdy (srv_osk_handler srv) s"
  shows "server_target_ok inst rdy (srv_osk_handler srv) s'"
  using assms(3)
proof (cases rule: session_step.cases)
  case (request n r w)
  then show ?thesis using assms(4) negotiate_request_osk [OF request(4)]
    by (auto simp: server_target_ok_def server_put_def server_view_def split: outcome.splits)
next
  case (acknowledged kn r w)
  then show ?thesis
    using assms(4) negotiate_ack_osk [OF acknowledged(4)] shake256.derive_is_key [OF assms(2)]
    by (auto simp: server_target_ok_def server_put_def server_view_def offered_key_def split: outcome.splits)
next
  case (server_installs k w)
  then show ?thesis
    using assms(4) osk_sink.set_fresh_installs [OF assms(1) _ _ server_installs(3)]
    by (auto simp: server_target_ok_def)
qed (use assms(4) in \<open>auto simp: server_target_ok_def client_put_def\<close>)

lemma client_step_target:
  assumes "osk_sink cs inst rdy" "shake256 (shake C)"
    and "session_step ss cs C srv cl other s s'" "client_target_ok inst rdy (cl_osk_handler cl) s"
  shows "client_target_ok inst rdy (cl_osk_handler cl) s'"
  using assms(3)
proof (cases rule: session_step.cases)
  case (negotiates r w)
  then show ?thesis
    using assms(4) wait_for_key_negotiation_osk [OF negotiates(4)] shake256.derive_is_key [OF assms(2)]
    by (auto simp: client_target_ok_def client_put_def client_view_def split: outcome.splits)
next
  case (client_installs k w)
  then show ?thesis
    using assms(4) osk_sink.set_fresh_installs [OF assms(1) _ _ client_installs(3)]
    by (auto simp: client_target_ok_def)
qed (use assms(4) in \<open>auto simp: client_target_ok_def server_put_def\<close>)

lemma session_run_targets:
  assumes "shake256 (shake C)"
    and "osk_sink ss sinst srdy" "srdy (srv_osk_handler srv) v"
    and "osk_sink cs cinst crdy" "crdy (cl_osk_handler cl) w"
    and "(session_step ss cs C srv cl other)\<^sup>*\<^sup>* (session_start sq cq e v w) s"
  shows "server_target_ok sinst srdy (srv_osk_handler srv) s
       \<and> client_target_ok cinst crdy (cl_osk_handler cl) s"
  using assms(6)
proof (induction rule: rtranclp_induct)
  case base
  then show ?case using assms(3,5)
    by (simp add: server_target_ok_def client_target_ok_def session_start_def)
next
  case (step s s')
  then show ?case
    using server_step_target [OF assms(2,1)] client_step_target [OF assms(4,1)] by blast
qed

text \<open>What every successful call of a handler extends holds of the keys its side has installed.\<close>

lemma session_run_server_log:
  assumes "(session_step ss cs C srv cl other)\<^sup>*\<^sup>* (session_start sq cq e v w) s"
    and "log [] v"
    and "\<And>ks k x x'. log ks x \<Longrightarrow> ss (srv_osk_handler srv) k Fresh x = (Ok (), x') \<Longrightarrow> log (ks @ [k]) x'"
  shows "server_at s \<noteq> Server_Ended \<longrightarrow> log (server_keys s) (server_sink s)"
  using assms(1)
proof (induction rule: rtranclp_induct)
  case base
  then show ?case using assms(2) by (simp add: session_start_def)
next
  case (step s s')
  from step.hyps(2) step.IH show ?case
    by (cases rule: session_step.cases)
      (auto simp: server_put_def client_put_def server_view_def set_fresh_osk_def
        dest: assms(3) negotiate_request_osk negotiate_ack_osk)
qed

lemma session_run_client_log:
  assumes "(session_step ss cs C srv cl other)\<^sup>*\<^sup>* (session_start sq cq e v w) s"
    and "log [] w"
    and "\<And>ks k x x'. log ks x \<Longrightarrow> cs (cl_osk_handler cl) k Fresh x = (Ok (), x') \<Longrightarrow> log (ks @ [k]) x'"
  shows "client_at s \<noteq> Client_Ended \<longrightarrow> log (client_keys s) (client_sink s)"
  using assms(1)
proof (induction rule: rtranclp_induct)
  case base
  then show ?case using assms(2) by (simp add: session_start_def)
next
  case (step s s')
  from step.hyps(2) step.IH show ?case
    by (cases rule: session_step.cases)
      (auto simp: server_put_def client_put_def client_view_def set_fresh_osk_def
        dest: assms(3) wait_for_key_negotiation_osk)
qed

section \<open>A round that succeeds\<close>

lemma negotiate_request_ok:
  assumes "io C = mem_io" "quota (stream_of w) = None"
    and "fetch_any_key (b64 C) (srv_etsi_client srv) (etsi_of w) = (Ok k, e)"
  shows "negotiate_request C srv n w = (Ok (k, n), w\<lparr>stream_of := (stream_of w)\<lparr>outgoing :=
           outgoing (stream_of w) @ req_bytes (k, n)\<rparr>, etsi_of := e\<rparr>)"
  using assms by (simp add: negotiate_request_def mem_io_def mem_write_all_def req_bytes_def rekey_req_new_def)

lemma wait_for_key_negotiation_ok:
  assumes "io C = mem_io" "quota (stream_of w) = None" "wf_offer (k, n)"
    and "incoming (stream_of w) = req_bytes (k, n)"
    and "fetch_specific_key (b64 C) (uuids C) (cl_etsi_client cl) (key_id k) (etsi_of w) = (Ok k', e)"
  shows "wait_for_key_negotiation C cl w =
     (Ok (derive_daisyway_key (uuids C) (shake C) (cl_params cl) n k'),
      w\<lparr>stream_of := (stream_of w)\<lparr>incoming := [], outgoing := outgoing (stream_of w) @ [1]\<rparr>, etsi_of := e\<rparr>)"
  using assms length_req_bytes [OF assms(3)] rekey_req_roundtrip [OF wf_offer_req [OF assms(3)]]
  by (simp add: wait_for_key_negotiation_def mem_io_def mem_read_exact_def mem_write_all_def req_bytes_def
      rekey_req_new_def rekey_ack_as_bytes_def REKEY_ACK_def)

context session_parties
begin

lemma round_steps:
  assumes at: "server_at s = Server_Idle" "client_at s = Client_Idle" "to_client s = []" "to_server s = []"
    and quota: "server_quota s = None" "client_quota s = None" and n: "is_key n"
    and any: "fetch_any_key (b64 C) (srv_etsi_client srv) (kme s) = (Ok k, e1)"
    and spec: "fetch_specific_key (b64 C) (uuids C) (cl_etsi_client cl) (key_id k) e1 = (Ok k', e2)"
    and sset: "ss (srv_osk_handler srv) (offered_key C srv (k, n)) Fresh (server_sink s) = (Ok (), v)"
    and cset: "cs (cl_osk_handler cl) (offered_key C srv (k, n)) Fresh (client_sink s) = (Ok (), w)"
  shows "(session_step ss cs C srv cl other)\<^sup>*\<^sup>* s
    (s\<lparr>kme := e2, server_sink := v, client_sink := w,
       server_keys := server_keys s @ [offered_key C srv (k, n)],
       client_keys := client_keys s @ [offered_key C srv (k, n)]\<rparr>)"
proof -
  let ?step = "session_step ss cs C srv cl other" and ?k = "offered_key C srv (k, n)"
  have k: "k' = k" and wf: "wf_offer (k, n)"
    using get_key [OF any] get_key_with_id [OF _ spec] n by (auto simp: wf_offer_def)
  let ?S = "server_keys s" and ?C = "client_keys s"
  let ?at = "\<lambda>tc ts e sp cp a b x y. \<lparr>to_client = tc, to_server = ts, server_quota = None,
      client_quota = None, kme = e, server_sink = a, client_sink = b, server_at = sp, client_at = cp,
      server_keys = x, client_keys = y\<rparr>"
  let ?s0 = "?at [] [] (kme s) Server_Idle Client_Idle (server_sink s) (client_sink s) ?S ?C"
  let ?s1 = "?at (req_bytes (k, n)) [] e1 (Server_Waiting (k, n)) Client_Idle
      (server_sink s) (client_sink s) ?S ?C"
  let ?s2 = "?at [] [1] e2 (Server_Waiting (k, n)) (Client_Installing ?k)
      (server_sink s) (client_sink s) ?S ?C"
  let ?s3 = "?at [] [] e2 (Server_Installing ?k) (Client_Installing ?k)
      (server_sink s) (client_sink s) ?S ?C"
  let ?s4 = "?at [] [] e2 Server_Idle (Client_Installing ?k) v (client_sink s) (?S @ [?k]) ?C"
  let ?s5 = "?at [] [] e2 Server_Idle Client_Idle v w (?S @ [?k]) (?C @ [?k])"
  have s1: "?step ?s0 ?s1"
    using session_step.request [where s = ?s0, OF _ n negotiate_request_ok [OF stream]] any
    by (simp add: server_view_def server_put_def)
  have s2: "?step ?s1 ?s2"
    using session_step.negotiates [where s = ?s1 and cl = cl, OF _ _ wait_for_key_negotiation_ok [OF stream _ wf, where k' = k and e = e2]]
      spec length_req_bytes [OF wf]
    by (simp add: client_view_def client_put_def offered_key_client k)
  have s3: "?step ?s2 ?s3"
    using session_step.acknowledged [where s = ?s2 and srv = srv and kn = "(k, n)", OF _ _ negotiate_ack_mem(1) [OF stream]]
    by (simp add: server_view_def server_put_def offered_key_def REKEY_ACK_LENGTH_def)
  have s4: "?step ?s3 ?s4"
    using session_step.server_installs [where s = ?s3 and k = ?k and w = v] sset
    by (simp add: set_fresh_osk_def)
  have s5: "?step ?s4 ?s5"
    using session_step.client_installs [where s = ?s4 and k = ?k and w = w] cset
    by (simp add: set_fresh_osk_def)
  have "?step\<^sup>*\<^sup>* ?s0 ?s5"
    using s1 s2 s3 s4 s5 by (meson converse_rtranclp_into_rtranclp r_into_rtranclp)
  moreover have "?s0 = s" using at quota by (cases s) simp
  moreover have "?s5 = s\<lparr>kme := e2, server_sink := v, client_sink := w,
      server_keys := server_keys s @ [?k], client_keys := client_keys s @ [?k]\<rparr>"
    using at quota by (cases s) simp
  ultimately show ?thesis by simp
qed

end

end
