(* ===== verification/Simulator.thy ===== *)
theory Simulator
  imports Session
begin

text \<open>
  \<open>simulator/src/main.rs\<close>: the key server the repository ships for tests. Its
  request handlers are functions of the shared counter; the crates it uses for
  Base64, UUIDs and JSON are parameters. The last part connects the simulator to
  the client of \<open>etsi014.rs\<close> over any HTTP transport that meets the laws of the
  locale \<open>sim_transport\<close>, and shows that the pair is a QKD link in the sense of
  \<open>Session\<close>.
\<close>

section \<open>Strings of the standard library\<close>

definition contains :: "string \<Rightarrow> string \<Rightarrow> bool" where
  "contains s pat = sublist pat s"

fun find_str :: "string \<Rightarrow> string \<Rightarrow> nat option" where
  "find_str pat [] = (if pat = [] then Some 0 else None)"
| "find_str pat (c # s) = (if prefix pat (c # s) then Some 0 else map_option Suc (find_str pat s))"

fun decimal :: "nat \<Rightarrow> string" where
  "decimal n = (if n < 10 then [char_of (48 + n)] else decimal (n div 10) @ [char_of (48 + n mod 10)])"

declare decimal.simps [simp del]

section \<open>The request handlers\<close>

record sim_request =
  uri_path :: string
  uri_query :: "string option"

record sim_response =
  sim_status :: nat
  sim_headers :: "(string \<times> string) list"
  sim_body :: string

text \<open>
  \<open>serde_json\<close>: the text of the object with one key and its identifier, and
  the parser of such an answer on the other side.
\<close>

record json_ops =
  json_key_response :: "string \<Rightarrow> string \<Rightarrow> string"
  json_parse_keys :: "string \<Rightarrow> (string \<times> string) list option"

text \<open>Bodies in one piece; converting their errors, which cannot occur, has no effect.\<close>

definition empty_body :: string where
  "empty_body = []"

definition full_body :: "string \<Rightarrow> string" where
  "full_body chunk = chunk"

declare empty_body_def [simp] full_body_def [simp]

definition bad_request :: "string \<Rightarrow> sim_response" where
  "bad_request msg = \<lparr>sim_status = 400, sim_headers = [], sim_body = full_body msg\<rparr>"

text \<open>
  \<open>AtomicU64::fetch_add(1, ..)\<close>: one atomic step that returns the old value and
  leaves the next one, wrapping around.
\<close>

definition fetch_add :: "u64 \<Rightarrow> u64 \<times> u64" where
  "fetch_add counter = (counter, counter + 1)"

declare fetch_add_def [simp]

text \<open>The identifier a request asks for, the response that refuses it otherwise.\<close>

definition requested_key_id ::
  "uuid_ops \<Rightarrow> string \<Rightarrow> string option \<Rightarrow> u64 \<Rightarrow> (sim_response + uuid) \<times> u64" where
  "requested_key_id U path query counter =
     (if contains path ''dec_keys''
      then (case query of
          Some q \<Rightarrow> (case find_str ''key_ID='' q of
              Some pos \<Rightarrow> (case uuid_parse_str U (drop (pos + 7) q) of
                  Some i \<Rightarrow> Inr i
                | None \<Rightarrow> Inl (bad_request ''Invalid key_ID format''))
            | None \<Rightarrow> Inl (bad_request ''Invalid key_ID format''))
        | None \<Rightarrow> Inl (bad_request ''key_ID parameter is required''), counter)
      else (let (c, counter') = fetch_add counter in (Inr (from_u128 U (ucast c)), counter')))"

definition key_response :: "base64_ops \<Rightarrow> uuid_ops \<Rightarrow> json_ops \<Rightarrow> uuid \<Rightarrow> sim_response outcome" where
  "key_response B U J i =
     (let key_input = i @ i in
      bind_outcome (unwrap_outcome ''called Result::unwrap() on an Err value''
          (of_sum B64 (b64_encode B key_input 128))) (\<lambda>encoded_key.
        (let response_body = json_key_response J (string_of_bytes encoded_key) (uuid_to_string U i) in
         Ok \<lparr>sim_status = 200,
             sim_headers = [(''Content-Type'', ''application/json''),
                            (''Content-Length'', decimal (length response_body))],
             sim_body = full_body response_body\<rparr>)))"

definition handle_keys ::
  "base64_ops \<Rightarrow> uuid_ops \<Rightarrow> json_ops \<Rightarrow> string \<Rightarrow> string option \<Rightarrow> u64 \<Rightarrow> sim_response outcome \<times> u64" where
  "handle_keys B U J path query counter =
     (if \<not> contains path ''dec_keys'' \<and> \<not> contains path ''enc_keys''
      then (Ok (bad_request ''Only one of /dec_keys or /enc_keys is allowed''), counter)
      else (case requested_key_id U path query counter of
          (Inl refused, counter') \<Rightarrow> (Ok refused, counter')
        | (Inr i, counter') \<Rightarrow> (key_response B U J i, counter')))"

definition handle_request ::
  "base64_ops \<Rightarrow> uuid_ops \<Rightarrow> json_ops \<Rightarrow> sim_request \<Rightarrow> u64 \<Rightarrow> sim_response outcome \<times> u64" where
  "handle_request B U J req counter =
     (if prefix ''/api/v1/keys/'' (uri_path req)
      then handle_keys B U J (uri_path req) (uri_query req) counter
      else (Ok \<lparr>sim_status = 404, sim_headers = [], sim_body = empty_body\<rparr>, counter))"

section \<open>Start-up and connections\<close>

record sim_args =
  sim_addr :: string
  cert_path :: "string option"
  key_path :: "string option"
  ca_path :: "string option"
  sim_danger_allow_insecure_no_server_name_certificates :: bool

text \<open>
  The server side of \<open>rustls\<close>: certificate and key files, the store of trusted
  roots, the verifier of client certificates, and the final check of a server's
  certificate chain and key.
\<close>

record sim_tls_ops =
  sim_cert_file :: "string \<Rightarrow> cert outcome"
  sim_key_file :: "string \<Rightarrow> private_key outcome"
  sim_roots_add :: "cert list \<Rightarrow> cert \<Rightarrow> cert list outcome"
  client_verifier :: "cert list \<Rightarrow> unit outcome"
  single_cert :: "cert list option \<Rightarrow> cert list \<Rightarrow> private_key \<Rightarrow> unit outcome"

text \<open>Roots of the accepted client certificates, if clients authenticate, chain and key.\<close>

record server_config =
  client_roots :: "cert list option"
  server_chain :: "cert list"
  server_key :: private_key

definition sim_load_tls_config ::
  "sim_tls_ops \<Rightarrow> string \<Rightarrow> string \<Rightarrow> string option \<Rightarrow> server_config outcome" where
  "sim_load_tls_config T cert_file key_file ca =
     bind_outcome (unwrap_outcome ''Failed to read certificate file'' (sim_cert_file T cert_file)) (\<lambda>crt.
     bind_outcome (unwrap_outcome ''Failed to read private key file'' (sim_key_file T key_file)) (\<lambda>key.
       (case ca of
          Some ca_file \<Rightarrow>
            bind_outcome (unwrap_outcome ''Failed to read CA certificate file'' (sim_cert_file T ca_file)) (\<lambda>ca_cert.
            bind_outcome (sim_roots_add T [] ca_cert) (\<lambda>roots.
            bind_outcome (unwrap_outcome ''Failed to create client certificate verifier''
                            (client_verifier T roots)) (\<lambda>_.
            bind_outcome (unwrap_outcome ''Failed to create server config''
                            (single_cert T (Some roots) [crt] key)) (\<lambda>_.
              Ok \<lparr>client_roots = Some roots, server_chain = [crt], server_key = key\<rparr>))))
        | None \<Rightarrow>
            bind_outcome (unwrap_outcome ''called Result::unwrap() on an Err value''
                            (single_cert T None [crt] key)) (\<lambda>_.
              Ok \<lparr>client_roots = None, server_chain = [crt], server_key = key\<rparr>))))"

text \<open>\<open>main\<close> up to its accept loop: the TLS acceptor, if any, and the first counter value.\<close>

definition sim_startup ::
  "sim_tls_ops \<Rightarrow> (string \<Rightarrow> unit outcome) \<Rightarrow> sim_args \<Rightarrow> (server_config option \<times> u64) outcome" where
  "sim_startup T bind_listener args =
     (if (cert_path args \<noteq> None) \<noteq> (key_path args \<noteq> None)
      then Err (Fmt ''Both --cert-path and --key-path must be provided'' [])
      else bind_outcome
        (case (cert_path args, key_path args) of
           (Some c, Some k) \<Rightarrow> bind_outcome (sim_load_tls_config T c k (ca_path args)) (\<lambda>cfg. Ok (Some cfg))
         | _ \<Rightarrow> Ok None) (\<lambda>tls_acceptor.
        bind_outcome (bind_listener (sim_addr args)) (\<lambda>_. Ok (tls_acceptor, 1))))"

text \<open>
  The accept loop of \<open>main\<close> and the tasks it spawns, which share the counter. An
  event is a connection the listener hands out, with the result of its TLS handshake
  in case there is one, an error of the listener, or a request that arrives on the
  connection with the given number. The runtime has several threads, but the counter
  is all that handlers share, and a handler touches it at most once, by the atomic
  \<open>fetch_add\<close>; so every interleaving of handlers has the effect of running them
  one after the other, in the order of their \<open>fetch_add\<close>s. A handler that panics
  ends its connection.
\<close>

datatype sim_event = Sim_Accepted "server_config \<Rightarrow> unit outcome" | Sim_Accept_Failed error
  | Sim_Request nat sim_request

record sim_state =
  sim_counter :: u64
  sim_served :: "bool list"
  sim_log :: "(sim_request \<times> sim_response) list"

definition sim_accept ::
  "server_config option \<Rightarrow> (server_config \<Rightarrow> unit outcome) \<Rightarrow> sim_state \<Rightarrow> sim_state" where
  "sim_accept tls_acceptor handshake st = st\<lparr>sim_served := sim_served st @ [case tls_acceptor of
       Some cfg \<Rightarrow> is_Ok (handshake cfg) | None \<Rightarrow> True]\<rparr>"

definition sim_serve ::
  "base64_ops \<Rightarrow> uuid_ops \<Rightarrow> json_ops \<Rightarrow> nat \<Rightarrow> sim_request \<Rightarrow> sim_state \<Rightarrow> sim_state" where
  "sim_serve B U J i req st =
     (if i < length (sim_served st) \<and> sim_served st ! i
      then (case handle_request B U J req (sim_counter st) of
          (Ok resp, c) \<Rightarrow> st\<lparr>sim_counter := c, sim_log := sim_log st @ [(req, resp)]\<rparr>
        | (_, c) \<Rightarrow> st\<lparr>sim_counter := c, sim_served := (sim_served st)[i := False]\<rparr>)
      else st)"

fun sim_main_loop ::
  "base64_ops \<Rightarrow> uuid_ops \<Rightarrow> json_ops \<Rightarrow> server_config option \<Rightarrow> sim_event list \<Rightarrow> sim_state
     \<Rightarrow> (unit outcome, sim_state) loop_state" where
  "sim_main_loop B U J tls [] st = Running st"
| "sim_main_loop B U J tls (Sim_Accepted handshake # evs) st =
     sim_main_loop B U J tls evs (sim_accept tls handshake st)"
| "sim_main_loop B U J tls (Sim_Accept_Failed e # evs) st = Returned (Err e) st"
| "sim_main_loop B U J tls (Sim_Request i req # evs) st =
     sim_main_loop B U J tls evs (sim_serve B U J i req st)"

definition sim_main ::
  "base64_ops \<Rightarrow> uuid_ops \<Rightarrow> json_ops \<Rightarrow> sim_tls_ops \<Rightarrow> (string \<Rightarrow> unit outcome) \<Rightarrow> sim_args \<Rightarrow> sim_event list
     \<Rightarrow> (unit outcome, sim_state option) loop_state" where
  "sim_main B U J T bind_listener args evs = (case sim_startup T bind_listener args of
       Ok (tls, counter) \<Rightarrow>
         (case sim_main_loop B U J tls evs \<lparr>sim_counter = counter, sim_served = [], sim_log = []\<rparr> of
            Running st \<Rightarrow> Running (Some st)
          | Returned r st \<Rightarrow> Returned r (Some st))
     | Err e \<Rightarrow> Returned (Err e) None
     | Panic m \<Rightarrow> Returned (Panic m) None)"

section \<open>The client of the simulator\<close>

locale json_codec =
  fixes J :: json_ops
  assumes parse_response: "json_parse_keys J (json_key_response J k i) = Some [(k, i)]"

text \<open>
  Characters that an address carries as they are, in every part of it: letters,
  digits, hyphen and underscore. (A dot may be part of a dot segment, which the
  client removes.)
\<close>

definition url_char :: "char \<Rightarrow> bool" where
  "url_char c \<longleftrightarrow> c \<in> set ''ABCDEFGHIJKLMNOPQRSTUVWXYZabcdefghijklmnopqrstuvwxyz0123456789-_''"

definition path_char :: "char \<Rightarrow> bool" where
  "path_char c \<longleftrightarrow> url_char c \<or> c = CHR ''/''"

definition query_char :: "char \<Rightarrow> bool" where
  "query_char c \<longleftrightarrow> url_char c \<or> c = CHR ''='' \<or> c = CHR ''&''"

text \<open>
  An identifier of the peer that needs no encoding in an address and keeps the two
  kinds of request apart.
\<close>

definition plain_sae :: "string \<Rightarrow> bool" where
  "plain_sae sae \<longleftrightarrow> list_all url_char sae
     \<and> \<not> contains (''/api/v1/keys/'' @ sae @ ''/enc_keys'') ''dec_keys''"

text \<open>The key the simulator makes of an identifier.\<close>

definition sim_key :: "uuid \<Rightarrow> etsi014_key" where
  "sim_key i = \<lparr>key_id = i, key_bytes = i @ i\<rparr>"

lemma contains_suffix [simp]: "contains (xs @ s) s"
  by (simp add: contains_def sublist_append_leftI)

lemma wf_sim_key: "is_uuid i \<Longrightarrow> wf_etsi014_key (sim_key i)"
  by (simp add: wf_etsi014_key_def sim_key_def is_uuid_def is_key_def KEY_LENGTH_def)

lemma key_response_ok:
  assumes "base64ct B" "is_uuid i"
  obtains enc r where "key_response B U J i = Ok r" "b64_encode B (i @ i) 128 = Inr enc"
    "sim_body r = json_key_response J (string_of_bytes enc) (uuid_to_string U i)" "sim_status r = 200"
proof -
  obtain enc where "b64_encode B (i @ i) 128 = Inr enc"
    using base64ct.encode_total [OF assms(1), of "i @ i" 128] assms(2)
    by (auto simp: is_uuid_def padded_len_def)
  then show thesis using that by (simp add: key_response_def Let_def)
qed

lemma sim_handles_enc:
  assumes "plain_sae sae"
  shows "handle_request B U J \<lparr>uri_path = ''/api/v1/keys/'' @ sae @ ''/enc_keys'',
      uri_query = Some ''number=1&key_length=256''\<rparr> c
    = (key_response B U J (from_u128 U (ucast c)), c + 1)"
  using assms contains_suffix [of "''/api/v1/keys/'' @ sae @ ''/''" "''enc_keys''"]
  by (simp add: handle_request_def handle_keys_def requested_key_id_def plain_sae_def)

lemma sim_handles_dec:
  assumes "uuid_crate U" "is_uuid i"
  shows "handle_request B U J \<lparr>uri_path = ''/api/v1/keys/'' @ sae @ ''/dec_keys'',
      uri_query = Some (''key_ID='' @ uuid_to_string U i)\<rparr> c
    = (key_response B U J i, c)"
  using uuid_crate.parse_to_string [OF assms] contains_suffix [of "''/api/v1/keys/'' @ sae @ ''/''" "''dec_keys''"]
  by (simp add: handle_request_def handle_keys_def requested_key_id_def)

definition sim_holds :: "u64 \<Rightarrow> etsi014_key \<Rightarrow> bool" where
  "sim_holds c k \<longleftrightarrow> (\<exists>i. is_uuid i \<and> k = sim_key i)"

text \<open>
  What is relied on between \<open>reqwest\<close> and \<open>hyper\<close>, with \<open>base\<close> an address
  of the simulator that a path can follow (scheme and authority, no path of its own):
  a GET whose path and query need no encoding reaches the handler with just this path
  and query, its answer comes back with its status, and a body that is the JSON text
  of one key is read as that key. The textual form of a UUID needs no encoding.
\<close>

locale sim_transport = base64ct B + uuid_crate U for B :: base64_ops and U :: uuid_ops +
  fixes J :: json_ops and base :: string and get :: "u64 http_get"
  assumes id_text: "is_uuid i \<Longrightarrow> list_all url_char (uuid_to_string U i)"
    and exchange: "list_all path_char p \<Longrightarrow> list_all query_char q \<Longrightarrow>
      handle_request B U J \<lparr>uri_path = CHR ''/'' # p, uri_query = Some q\<rparr> c = (Ok r, c') \<Longrightarrow>
      \<exists>resp. get (base @ CHR ''/'' # p @ CHR ''?'' # q) c = (Ok resp, c') \<and> status resp = sim_status r
        \<and> (\<forall>k i. is_uuid i \<and> sim_body r = json_key_response J k (uuid_to_string U i) \<longrightarrow>
             body_json resp = Ok [\<lparr>response_id = i, response_text = k\<rparr>])"
begin

lemma sim_delivers:
  assumes "is_uuid i" "list_all path_char p" "list_all query_char q"
    and "handle_request B U J \<lparr>uri_path = CHR ''/'' # p, uri_query = Some q\<rparr> c = (key_response B U J i, c')"
  shows "fetch_key_internal B (etsi014_connection_new base sae get) (base @ CHR ''/'' # p @ CHR ''?'' # q) c
    = (Ok (sim_key i), c')"
proof -
  obtain enc r where r: "key_response B U J i = Ok r" "b64_encode B (i @ i) 128 = Inr enc"
    "sim_body r = json_key_response J (string_of_bytes enc) (uuid_to_string U i)" "sim_status r = 200"
    using key_response_ok [OF base64ct_axioms assms(1)] .
  let ?v = "\<lparr>response_id = i, response_text = string_of_bytes enc\<rparr>"
  obtain resp where resp: "get (base @ CHR ''/'' # p @ CHR ''?'' # q) c = (Ok resp, c')" "status resp = 200"
    "body_json resp = Ok [?v]"
    using exchange [OF assms(2,3) assms(4) [unfolded r(1)]] r(3,4) assms(1) by auto
  have "try_from_response_key B ?v = Ok (sim_key i)"
    using decode_encode [OF r(2), of KEY_LENGTH] assms(1)
    by (simp add: try_from_response_key_Ok sim_key_def is_key_def is_uuid_def KEY_LENGTH_def)
  with resp show ?thesis
    by (simp add: fetch_key_internal_Ok etsi014_connection_new_def is_success_def)
qed

lemma path_chars:
  assumes "plain_sae sae"
  shows "list_all path_char (''api/v1/keys/'' @ sae @ ''/enc_keys'')"
    and "list_all path_char (''api/v1/keys/'' @ sae @ ''/dec_keys'')"
proof -
  have "list_all path_char sae" using assms by (auto simp: plain_sae_def path_char_def list_all_iff)
  then show "list_all path_char (''api/v1/keys/'' @ sae @ ''/enc_keys'')"
    "list_all path_char (''api/v1/keys/'' @ sae @ ''/dec_keys'')"
    by (simp_all add: path_char_def url_char_def)
qed

lemma query_chars:
  "list_all query_char ''number=1&key_length=256''"
  "is_uuid i \<Longrightarrow> list_all query_char (''key_ID='' @ uuid_to_string U i)"
proof -
  show "list_all query_char ''number=1&key_length=256''" by (simp add: query_char_def url_char_def)
  have "list_all query_char ''key_ID=''" by (simp add: query_char_def url_char_def)
  then show "list_all query_char (''key_ID='' @ uuid_to_string U i)" if "is_uuid i"
    using id_text [OF that] by (auto simp: query_char_def list_all_iff)
qed

lemma sim_fetch_any:
  assumes "plain_sae sae"
  shows "fetch_any_key B (etsi014_connection_new base sae get) c = (Ok (sim_key (from_u128 U (ucast c))), c + 1)"
proof -
  let ?p = "''api/v1/keys/'' @ sae @ ''/enc_keys''"
  have "handle_request B U J \<lparr>uri_path = CHR ''/'' # ?p, uri_query = Some ''number=1&key_length=256''\<rparr> c
      = (key_response B U J (from_u128 U (ucast c)), c + 1)"
    using sim_handles_enc [OF assms, of B U J c] by simp
  from sim_delivers [OF from_u128_is_uuid path_chars(1) [OF assms] query_chars(1) this, of sae]
  show ?thesis by (simp add: fetch_any_key_def enc_keys_uri_def etsi014_connection_new_def)
qed

lemma sim_fetch_specific:
  assumes "plain_sae sae" "is_uuid i"
  shows "fetch_specific_key B U (etsi014_connection_new base sae get) i c = (Ok (sim_key i), c)"
proof -
  let ?p = "''api/v1/keys/'' @ sae @ ''/dec_keys''"
  have "handle_request B U J \<lparr>uri_path = CHR ''/'' # ?p, uri_query = Some (''key_ID='' @ uuid_to_string U i)\<rparr> c
      = (key_response B U J i, c)"
    using sim_handles_dec [OF uuid_crate_axioms assms(2), of B J sae c] by simp
  from sim_delivers [OF assms(2) path_chars(2) [OF assms(1)] query_chars(2) [OF assms(2)] this, of sae]
  show ?thesis by (simp add: fetch_specific_key_def dec_keys_uri_def etsi014_connection_new_def)
qed

end

lemma sim_qkd_link:
  assumes "sim_transport B U J base get" "sim_transport B U J base' get'" "plain_sae sae" "plain_sae sae'"
  shows "qkd_link B U (etsi014_connection_new base sae get) (etsi014_connection_new base' sae' get')
    (\<lambda>c c'. True) sim_holds"
proof (unfold_locales, goal_cases)
  case (1 e k e')
  have "is_uuid (from_u128 U w)" for w
    by (rule uuid_crate.from_u128_is_uuid [OF sim_transport.axioms(2) [OF assms(1)]])
  with 1 show ?case
    using sim_transport.sim_fetch_any [OF assms(1,3)] wf_sim_key by (auto simp: sim_holds_def)
next
  case (2 e k k' e')
  then obtain i where "is_uuid i" "k = sim_key i" by (auto simp: sim_holds_def)
  with 2 show ?case using sim_transport.sim_fetch_specific [OF assms(2,4), of i] by (simp add: sim_key_def)
qed (auto simp: sim_holds_def)

section \<open>A JSON codec\<close>

fun json_escape :: "string \<Rightarrow> string" where
  "json_escape [] = []"
| "json_escape (c # s) = (if c = CHR 0x22 \<or> c = CHR 0x5C then CHR 0x5C # c # json_escape s
     else c # json_escape s)"

fun json_unescape :: "string \<Rightarrow> (string \<times> string) option" where
  "json_unescape [] = None"
| "json_unescape (c # s) =
     (if c = CHR 0x22 then Some ([], s)
      else if c = CHR 0x5C
        then (case s of [] \<Rightarrow> None | d # t \<Rightarrow> map_option (\<lambda>(x, r). (d # x, r)) (json_unescape t))
        else map_option (\<lambda>(x, r). (c # x, r)) (json_unescape s))"

definition json_quote :: "string \<Rightarrow> string" where
  "json_quote s = CHR 0x22 # json_escape s @ [CHR 0x22]"

definition json_head :: string where
  "json_head = ''{'' @ json_quote ''keys'' @ '':[{'' @ json_quote ''key'' @ '':'' @ [CHR 0x22]"

definition json_mid :: string where
  "json_mid = '','' @ json_quote ''key_ID'' @ '':'' @ [CHR 0x22]"

definition plain_json :: json_ops where
  "plain_json = \<lparr>json_key_response = (\<lambda>k i. json_head @ json_escape k @ [CHR 0x22] @ json_mid
       @ json_escape i @ [CHR 0x22] @ ''}]}''),
     json_parse_keys = (\<lambda>t. if prefix json_head t then
        (case json_unescape (drop (length json_head) t) of
           None \<Rightarrow> None
         | Some (k, r) \<Rightarrow> (if prefix json_mid r then
             (case json_unescape (drop (length json_mid) r) of
                None \<Rightarrow> None
              | Some (i, r') \<Rightarrow> if r' = ''}]}'' then Some [(k, i)] else None) else None))
        else None)\<rparr>"

lemma json_unescape_escape: "json_unescape (json_escape s @ CHR 0x22 # r) = Some (s, r)"
  by (induction s) auto

interpretation plain: json_codec plain_json
  by unfold_locales (simp add: plain_json_def json_unescape_escape)

section \<open>A transport\<close>

text \<open>
  A transport without a network that meets the laws: the address is cut behind the
  base and at the question mark, and the body is read as JSON with UUIDs for
  identifiers.
\<close>

definition read_response :: "uuid_ops \<Rightarrow> string \<times> string \<Rightarrow> response_key option" where
  "read_response U ki = map_option (\<lambda>u. \<lparr>response_id = u, response_text = fst ki\<rparr>) (uuid_parse_str U (snd ki))"

definition read_body :: "uuid_ops \<Rightarrow> json_ops \<Rightarrow> string \<Rightarrow> response_keys outcome" where
  "read_body U J text = (case json_parse_keys J text of
       None \<Rightarrow> Err (Foreign 2)
     | Some kis \<Rightarrow> (let ks = map (read_response U) kis in
         if None \<in> set ks then Err (Foreign 3) else Ok (map the ks)))"

definition split_uri :: "string \<Rightarrow> sim_request" where
  "split_uri s = \<lparr>uri_path = takeWhile (\<lambda>c. c \<noteq> CHR ''?'') s,
     uri_query = (case dropWhile (\<lambda>c. c \<noteq> CHR ''?'') s of [] \<Rightarrow> None | _ # q \<Rightarrow> Some q)\<rparr>"

definition ref_http :: "base64_ops \<Rightarrow> uuid_ops \<Rightarrow> json_ops \<Rightarrow> string \<Rightarrow> u64 http_get" where
  "ref_http B U J base uri counter =
     (if prefix base uri
      then (case handle_request B U J (split_uri (drop (length base) uri)) counter of
          (Ok r, c) \<Rightarrow> (Ok \<lparr>status = sim_status r, body_text = Ok (sim_body r),
                           body_json = read_body U J (sim_body r)\<rparr>, c)
        | (_, c) \<Rightarrow> (Err (Foreign 4), c))
      else (Err (Foreign 5), counter))"

definition sim_connection ::
  "base64_ops \<Rightarrow> uuid_ops \<Rightarrow> json_ops \<Rightarrow> string \<Rightarrow> string \<Rightarrow> u64 etsi014_connection" where
  "sim_connection B U J base sae = etsi014_connection_new base sae (ref_http B U J base)"

lemma split_uri_plain: "list_all path_char p \<Longrightarrow>
   split_uri (CHR ''/'' # p @ CHR ''?'' # q) = \<lparr>uri_path = CHR ''/'' # p, uri_query = Some q\<rparr>"
proof -
  assume "list_all path_char p"
  moreover have "\<not> path_char CHR ''?''" by (simp add: path_char_def url_char_def)
  ultimately have "CHR ''?'' \<notin> set p" by (auto simp: list_all_iff)
  then show ?thesis by (simp add: split_uri_def takeWhile_append dropWhile_append)
qed

lemma hyphenated_url: "list_all url_char (hyphenated u)"
proof -
  have "list_all (\<lambda>n. url_char (hex_digit n)) [0..<16]" by code_simp
  then have digit: "url_char (hex_digit n)" if "n < 16" for n using that by (simp add: list_all_iff)
  have "list_all url_char (hex_string bs)" for bs
    by (induction bs) (simp_all add: hex_string_def hex_byte_def digit)
  moreover have "url_char CHR ''-''" by (simp add: url_char_def)
  ultimately show ?thesis by (simp add: hyphenated_def)
qed

interpretation ref_sim: sim_transport rfc4648 std_uuid plain_json base "ref_http rfc4648 std_uuid plain_json base"
proof (unfold_locales, goal_cases)
  case (1 i)
  show ?case by (simp add: std_uuid_def hyphenated_url)
next
  case (2 p q c r c')
  have "read_body std_uuid plain_json (sim_body r) = Ok [\<lparr>response_id = i, response_text = k\<rparr>]"
    if "is_uuid i" "sim_body r = json_key_response plain_json k (uuid_to_string std_uuid i)" for k i
    using that plain.parse_response std.parse_to_string by (simp add: read_body_def read_response_def)
  with 2 show ?case by (simp add: ref_http_def split_uri_plain)
qed

interpretation sim_link: qkd_link rfc4648 std_uuid
  "sim_connection rfc4648 std_uuid plain_json ''http://kme-a'' ''SAE_B''"
  "sim_connection rfc4648 std_uuid plain_json ''http://kme-b'' ''SAE_A''"
  "\<lambda>c c'. True" sim_holds
  unfolding sim_connection_def
  by (rule sim_qkd_link [OF ref_sim.sim_transport_axioms ref_sim.sim_transport_axioms])
    (simp_all add: plain_sae_def url_char_def contains_def sublist_Cons_right)

section \<open>Properties\<close>

text \<open>
  C16: the key server the repository ships is a QKD link for its own client, over any
  HTTP transport that meets the laws of \<open>sim_transport\<close> and for peer identifiers
  of letters, digits, hyphens and underscores that do not make the path of a request
  for a fresh key contain \<open>dec_keys\<close>: every request for a fresh key succeeds, with
  the counter's value as the identifier, and a later request for that identifier,
  whatever happened to the counter since and from whichever of the two sides, gives
  the same key.
\<close>

theorem simulator_serves_same_key:
  assumes "sim_transport B U J base get" and "sim_transport B U J base' get'"
    and "plain_sae sae" and "plain_sae sae'"
  shows "\<exists>k. fetch_any_key B (etsi014_connection_new base sae get) c = (Ok k, c + 1)
     \<and> key_id k = from_u128 U (ucast c) \<and> wf_etsi014_key k
     \<and> fetch_specific_key B U (etsi014_connection_new base' sae' get') (key_id k) c' = (Ok k, c')"
proof -
  have u: "is_uuid (from_u128 U (ucast c))"
    by (rule uuid_crate.from_u128_is_uuid [OF sim_transport.axioms(2) [OF assms(1)]])
  from sim_transport.sim_fetch_any [OF assms(1,3)] sim_transport.sim_fetch_specific [OF assms(2,4) u] wf_sim_key [OF u]
  show ?thesis by (auto simp: sim_key_def)
qed

theorem simulator_serves_same_key_witness:
  "\<exists>k. fetch_any_key rfc4648 (sim_connection rfc4648 std_uuid plain_json ''http://kme'' ''SAE'') 41
       = (Ok k, 42)
     \<and> fetch_specific_key rfc4648 std_uuid (sim_connection rfc4648 std_uuid plain_json ''https://other:8443'' ''SAE-2'')
         (key_id k) 1000 = (Ok k, 1000)"
proof -
  have sae: "plain_sae ''SAE''" "plain_sae ''SAE-2''"
    by (simp_all add: plain_sae_def url_char_def contains_def sublist_Cons_right)
  have one: "41 + 1 = (42 :: u64)" by simp
  show ?thesis
    using simulator_serves_same_key [OF ref_sim.sim_transport_axioms ref_sim.sim_transport_axioms sae,
        of "''http://kme''" 41 "''https://other:8443''" 1000]
    unfolding one sim_connection_def by blast
qed

definition dec_query_ok :: "uuid_ops \<Rightarrow> string option \<Rightarrow> bool" where
  "dec_query_ok U query = (case query of None \<Rightarrow> False
     | Some q \<Rightarrow> (case find_str ''key_ID='' q of None \<Rightarrow> False
        | Some pos \<Rightarrow> uuid_parse_str U (drop (pos + 7) q) \<noteq> None))"

text \<open>
  C33: every request is answered, and the counter moves exactly when a fresh key is
  handed out. Outside the key API the answer is 404; within it 400 unless the path
  names one of the two operations and, for \<open>dec_keys\<close>, the query carries a
  readable identifier behind its first \<open>key_ID=\<close>.
\<close>

theorem simulator_answers:
  assumes "base64ct B" and "uuid_crate U"
  shows "\<exists>r. handle_request B U J req c =
      (Ok r, if prefix ''/api/v1/keys/'' (uri_path req) \<and> contains (uri_path req) ''enc_keys''
               \<and> \<not> contains (uri_path req) ''dec_keys'' then c + 1 else c)
    \<and> sim_status r =
      (if \<not> prefix ''/api/v1/keys/'' (uri_path req) then 404
       else if contains (uri_path req) ''dec_keys'' then (if dec_query_ok U (uri_query req) then 200 else 400)
       else if contains (uri_path req) ''enc_keys'' then 200 else 400)"
proof -
  have ok: "\<exists>r. key_response B U J i = Ok r \<and> sim_status r = 200" if "is_uuid i" for i
    using key_response_ok [OF assms(1) that] by metis
  have dec: "\<exists>r. (case requested_key_id U p q c of (Inl x, c') \<Rightarrow> (Ok x, c')
       | (Inr i, c') \<Rightarrow> (key_response B U J i, c')) = (Ok r, c)
     \<and> sim_status r = (if dec_query_ok U q then 200 else 400)" if "contains p ''dec_keys''" for p q
    using that ok uuid_crate.parse_is_uuid [OF assms(2)]
    by (auto simp: requested_key_id_def dec_query_ok_def bad_request_def split: option.splits)
  show ?thesis
    using dec [of "uri_path req" "uri_query req"] ok [OF uuid_crate.from_u128_is_uuid [OF assms(2)]]
    by (auto simp: handle_request_def handle_keys_def bad_request_def)
      (auto simp: requested_key_id_def)
qed

theorem simulator_answers_witness:
  "\<exists>r. handle_request rfc4648 std_uuid plain_json
        \<lparr>uri_path = ''/api/v1/keys/SAE/dec_keys'', uri_query = Some ''key=7''\<rparr> 5 = (Ok r, 5)
      \<and> sim_status r = 400"
  using simulator_answers [OF rfc.base64ct_axioms std.uuid_crate_axioms, where J = plain_json and c = 5
      and req = "\<lparr>uri_path = ''/api/v1/keys/SAE/dec_keys'', uri_query = Some ''key=7''\<rparr>"]
  by (simp add: contains_def sublist_Cons_right dec_query_ok_def)

text \<open>The requests that a fresh key answers, and the bodies of their answers.\<close>

definition asks_fresh :: "sim_request \<Rightarrow> bool" where
  "asks_fresh req \<longleftrightarrow> prefix ''/api/v1/keys/'' (uri_path req) \<and> contains (uri_path req) ''enc_keys''
     \<and> \<not> contains (uri_path req) ''dec_keys''"

definition fresh_bodies :: "(sim_request \<times> sim_response) list \<Rightarrow> string list" where
  "fresh_bodies log = map (\<lambda>(req, resp). sim_body resp) (filter (\<lambda>(req, resp). asks_fresh req) log)"

definition fresh_response :: "base64_ops \<Rightarrow> uuid_ops \<Rightarrow> json_ops \<Rightarrow> u64 \<Rightarrow> sim_response" where
  "fresh_response B U J c = (case key_response B U J (from_u128 U (ucast c)) of Ok r \<Rightarrow> r)"

lemma ucast_64_128_inj:
  assumes "(ucast (a :: u64) :: 128 word) = ucast b"
  shows "a = b"
proof (rule bit_word_eqI)
  fix n assume "n < LENGTH(64)"
  then show "bit a n = bit b n"
    using arg_cong [OF assms, of "\<lambda>w. bit w n"] by (simp add: bit_ucast_iff)
qed

lemma fresh_response_inj:
  assumes "base64ct B" "uuid_crate U" "json_codec J"
    and "sim_body (fresh_response B U J a) = sim_body (fresh_response B U J b)"
  shows "a = b"
proof -
  let ?i = "\<lambda>c. from_u128 U (ucast (c :: u64))"
  have u: "is_uuid (?i c)" for c by (rule uuid_crate.from_u128_is_uuid [OF assms(2)])
  have body: "\<exists>e. sim_body (fresh_response B U J c) = json_key_response J e (uuid_to_string U (?i c))" for c
    by (rule key_response_ok [OF assms(1) u [of c], of U J]) (auto simp: fresh_response_def)
  obtain e e' where "json_key_response J e (uuid_to_string U (?i a)) = json_key_response J e' (uuid_to_string U (?i b))"
    using body [of a] body [of b] assms(4) by metis
  then have "uuid_to_string U (?i a) = uuid_to_string U (?i b)"
    by (metis json_codec.parse_response [OF assms(3)] option.inject list.inject prod.inject)
  then have "?i a = ?i b" by (rule uuid_crate.to_string_inj [OF assms(2) u u])
  then show ?thesis by (intro ucast_64_128_inj uuid_crate.from_u128_inj [OF assms(2)])
qed

lemma handle_request_fresh:
  assumes "base64ct B" "uuid_crate U" "asks_fresh req"
  shows "handle_request B U J req c = (Ok (fresh_response B U J c), c + 1)"
proof -
  have eq: "handle_request B U J req c = (key_response B U J (from_u128 U (ucast c)), c + 1)"
    using assms(3) by (simp add: asks_fresh_def handle_request_def handle_keys_def requested_key_id_def)
  show ?thesis unfolding eq
    by (rule key_response_ok [OF assms(1) uuid_crate.from_u128_is_uuid [OF assms(2), of "ucast c"], of U J])
      (auto simp: fresh_response_def)
qed

lemma handle_request_not_fresh:
  "\<not> asks_fresh req \<Longrightarrow> snd (handle_request B U J req c) = c"
  by (auto simp: asks_fresh_def handle_request_def handle_keys_def requested_key_id_def
      split: option.splits sum.splits)

text \<open>The counter has moved by the number of fresh keys, and their answers are those of its values.\<close>

definition sim_log_ok :: "base64_ops \<Rightarrow> uuid_ops \<Rightarrow> json_ops \<Rightarrow> u64 \<Rightarrow> sim_state \<Rightarrow> bool" where
  "sim_log_ok B U J c st \<longleftrightarrow> (\<exists>n. sim_counter st = c + of_nat n \<and> n \<le> length (sim_log st)
     \<and> fresh_bodies (sim_log st) = map (\<lambda>i. sim_body (fresh_response B U J (c + of_nat i))) [0..<n])"

lemma sim_serve_log:
  assumes "base64ct B" "uuid_crate U" "sim_log_ok B U J c st"
  shows "sim_log_ok B U J c (sim_serve B U J i req st)"
proof (cases "i < length (sim_served st) \<and> sim_served st ! i")
  case True
  obtain n where n: "sim_counter st = c + of_nat n" "n \<le> length (sim_log st)"
    "fresh_bodies (sim_log st) = map (\<lambda>i. sim_body (fresh_response B U J (c + of_nat i))) [0..<n]"
    using assms(3) by (auto simp: sim_log_ok_def)
  show ?thesis
  proof (cases "asks_fresh req")
    case True
    with \<open>i < length (sim_served st) \<and> sim_served st ! i\<close> n
      handle_request_fresh [OF assms(1,2) True, of J "sim_counter st"] show ?thesis
      unfolding sim_log_ok_def by (intro exI [of _ "Suc n"]) (simp add: sim_serve_def fresh_bodies_def ac_simps)
  next
    case False
    with n handle_request_not_fresh [OF False, of B U J "sim_counter st"] show ?thesis
      unfolding sim_log_ok_def
      by (intro exI [of _ n])
        (auto simp: sim_serve_def fresh_bodies_def split: prod.splits outcome.splits)
  qed
next
  case False
  then show ?thesis using assms(3) by (auto simp: sim_serve_def)
qed

lemma sim_main_loop_log:
  "base64ct B \<Longrightarrow> uuid_crate U \<Longrightarrow> sim_log_ok B U J c st \<Longrightarrow>
   sim_log_ok B U J c (loop_world (sim_main_loop B U J tls evs st))
   \<and> length (sim_log (loop_world (sim_main_loop B U J tls evs st))) \<le> length (sim_log st) + length evs"
proof (induction B U J tls evs st rule: sim_main_loop.induct)
  case (2 B U J tls handshake evs st)
  then have "sim_log_ok B U J c (sim_accept tls handshake st)" by (simp add: sim_log_ok_def sim_accept_def)
  with 2 show ?case by (fastforce simp: sim_accept_def)
next
  case (4 B U J tls i req evs st)
  have "length (sim_log (sim_serve B U J i req st)) \<le> Suc (length (sim_log st))"
    by (simp add: sim_serve_def split: prod.splits outcome.splits)
  with 4 sim_serve_log [OF 4(2-4)] show ?case by fastforce
qed simp_all

text \<open>
  C34: across all connections of a simulator, in every interleaving of their
  requests, no identifier of a fresh key is handed out twice: the answers to the
  requests for fresh keys have pairwise different bodies, in runs of up to
  \<open>2 ^ 64\<close> events, the number of values of the counter.
\<close>

theorem simulator_ids_distinct:
  assumes "base64ct B" and "uuid_crate U" and "json_codec J" and "length evs \<le> 2 ^ 64"
    and "loop_world (sim_main B U J T bind_listener args evs) = Some st"
  shows "distinct (fresh_bodies (sim_log st))"
proof -
  let ?st0 = "\<lambda>c. \<lparr>sim_counter = c, sim_served = [], sim_log = []\<rparr>"
  obtain tls c where st: "st = loop_world (sim_main_loop B U J tls evs (?st0 c))"
    using assms(5)
    by (auto simp: sim_main_def split: outcome.splits loop_state.splits prod.splits) (metis loop_world.simps)+
  have "sim_log_ok B U J c (?st0 c)" by (simp add: sim_log_ok_def fresh_bodies_def)
  then have "sim_log_ok B U J c st" and len: "length (sim_log st) \<le> length evs"
    unfolding st using sim_main_loop_log [OF assms(1,2), of J c "?st0 c" tls evs] by simp_all
  then obtain n where "n \<le> length (sim_log st)"
    and bodies: "fresh_bodies (sim_log st) = map (\<lambda>i. sim_body (fresh_response B U J (c + of_nat i))) [0..<n]"
    unfolding sim_log_ok_def by blast
  with len assms(4) have n: "n \<le> 2 ^ 64" by linarith
  have "inj_on (\<lambda>i. sim_body (fresh_response B U J (c + of_nat i))) {0..<n}"
  proof (rule inj_onI)
    fix i j assume ij: "i \<in> {0..<n}" "j \<in> {0..<n}"
      "sim_body (fresh_response B U J (c + of_nat i)) = sim_body (fresh_response B U J (c + of_nat j))"
    then have "(of_nat i :: u64) = of_nat j" using fresh_response_inj [OF assms(1-3) ij(3)] by simp
    then show "i = j" using ij(1,2) n by (simp add: word_of_nat_eq_iff take_bit_nat_eq_self)
  qed
  then show ?thesis unfolding bodies by (simp add: distinct_map)
qed

text \<open>Two connections that ask for a fresh key each.\<close>

definition enc_request :: sim_request where
  "enc_request = \<lparr>uri_path = ''/api/v1/keys/SAE/enc_keys'', uri_query = Some ''number=1''\<rparr>"

definition plain_args :: sim_args where
  "plain_args = \<lparr>sim_addr = ''0.0.0.0:12345'', cert_path = None, key_path = None, ca_path = None,
     sim_danger_allow_insecure_no_server_name_certificates = False\<rparr>"

definition no_tls :: sim_tls_ops where
  "no_tls = \<lparr>sim_cert_file = \<lambda>_. Ok [], sim_key_file = \<lambda>_. Ok [], sim_roots_add = \<lambda>rs c. Ok (c # rs),
     client_verifier = \<lambda>_. Ok (), single_cert = \<lambda>_ _ _. Ok ()\<rparr>"

theorem simulator_ids_distinct_witness:
  "\<exists>st a b. loop_world (sim_main rfc4648 std_uuid plain_json no_tls (\<lambda>_. Ok ()) plain_args
        [Sim_Accepted (\<lambda>_. Ok ()), Sim_Accepted (\<lambda>_. Ok ()), Sim_Request 1 enc_request, Sim_Request 0 enc_request])
        = Some st
     \<and> sim_log st = [(enc_request, a), (enc_request, b)] \<and> sim_body a \<noteq> sim_body b"
proof -
  let ?evs = "[Sim_Accepted (\<lambda>_. Ok ()), Sim_Accepted (\<lambda>_. Ok ()), Sim_Request 1 enc_request, Sim_Request 0 enc_request]"
  have fresh: "asks_fresh enc_request"
    by (simp add: asks_fresh_def enc_request_def contains_def sublist_Cons_right)
  note h = handle_request_fresh [OF rfc.base64ct_axioms std.uuid_crate_axioms fresh]
  obtain st where run: "loop_world (sim_main rfc4648 std_uuid plain_json no_tls (\<lambda>_. Ok ()) plain_args ?evs) = Some st"
    and log: "sim_log st = [(enc_request, fresh_response rfc4648 std_uuid plain_json 1),
      (enc_request, fresh_response rfc4648 std_uuid plain_json 2)]"
    by (simp add: sim_main_def sim_startup_def plain_args_def sim_accept_def sim_serve_def h)
  from simulator_ids_distinct [OF rfc.base64ct_axioms std.uuid_crate_axioms plain.json_codec_axioms _ run]
  have "distinct (fresh_bodies (sim_log st))" by simp
  with run log fresh show ?thesis by (simp add: fresh_bodies_def)
qed

end
