(* ===== verification/Pipeline.thy ===== *)
theory Pipeline
  imports Session Setup
begin

text \<open>
  The way of a key through one host: the handle of the deadman switch is the output
  key handler of the connection manager and of the TCP client, its channel feeds the
  worker, and the worker calls the handler of the target. The lemmas here connect
  \<open>Session\<close>, \<open>Fanout\<close>, \<open>Connection_Manager\<close> and \<open>Deadman\<close>.
\<close>

section \<open>The handle as an output key handler\<close>

text \<open>\<open>OskHandler::set_osk\<close> of the handle; the channel is the state it acts on.\<close>

definition deadman_handler ::
  "(deadman_request, 'c) mpsc_send \<Rightarrow> ('h, 'c osk_deadman) set_osk" where
  "deadman_handler send h k reason d = deadman_set_osk send d k reason"

definition request_of :: "key \<times> set_osk_reason \<Rightarrow> deadman_request" where
  "request_of kr = SetOsk (fst kr) (snd kr)"

text \<open>The key of an event, and the keys of a sequence of events, that the specification of the manager accepts.\<close>

definition event_keys :: "'s stream_event \<Rightarrow> spec_manager \<Rightarrow> (key \<times> set_osk_reason) list" where
  "event_keys ev s = (case ev of
       Osk e \<Rightarrow> if fst (spec_event ev s) then [(osk_event_key e, osk_event_reason e)] else []
     | _ \<Rightarrow> [])"

fun accepted_keys :: "'s selected list \<Rightarrow> spec_manager \<Rightarrow> (key \<times> set_osk_reason) list" where
  "accepted_keys [] s = []"
| "accepted_keys (x # xs) s = (case selected_event x of
       Ok ev \<Rightarrow> event_keys ev s @ accepted_keys xs (snd (spec_event ev s))
     | _ \<Rightarrow> [])"

definition spec_start :: spec_manager where
  "spec_start = \<lparr>spec_next = 0, spec_active = None, spec_budding = {}\<rparr>"

lemma abs_manager_new [simp]: "abs_manager (connection_manager_new params etsi h interval w) = spec_start"
  by (simp add: abs_manager_def connection_manager_new_def spec_start_def active_connection_id_def)

lemma connection_manager_new_fields [simp]:
  "cm_sink (connection_manager_new params etsi h interval w) = w"
  "spawned (cm_tasks (connection_manager_new params etsi h interval w)) = []"
  by (simp_all add: connection_manager_new_def)

locale request_channel = mpsc send sent receiver_alive
  for send :: "(deadman_request, 'c) mpsc_send"
    and sent :: "'c \<Rightarrow> deadman_request list"
    and receiver_alive :: "'c \<Rightarrow> bool"
begin

lemma deadman_handler_sends:
  assumes "receiver_alive (deadman_client d)" "deadman_handler send h k r d = (res, d')"
  shows "res = Ok ()" and "receiver_alive (deadman_client d')"
    and "sent (deadman_client d') = sent (deadman_client d) @ [SetOsk k r]"
proof -
  obtain r1 c where c: "send (SetOsk k r) (deadman_client d) = (r1, c)" by fastforce
  from send_result [OF c] assms c
  show "res = Ok ()" "receiver_alive (deadman_client d')"
    "sent (deadman_client d') = sent (deadman_client d) @ [SetOsk k r]"
    by (auto simp: deadman_handler_def deadman_set_osk_def)
qed

lemma on_event_sends:
  assumes "cm_inv m" "Suc (length (spawned (cm_tasks m))) < 2 ^ 64"
    and "receiver_alive (deadman_client (cm_sink m))"
    and "on_event oc (deadman_handler send) ev m = (r, m1)"
  shows "r = Ok ()" and "cm_inv m1" and "receiver_alive (deadman_client (cm_sink m1))"
    and "abs_manager m1 = snd (spec_event ev (abs_manager m))"
    and "length (spawned (cm_tasks m1)) \<le> Suc (length (spawned (cm_tasks m)))"
    and "sent (deadman_client (cm_sink m1)) = sent (deadman_client (cm_sink m))
           @ map request_of (event_keys ev (abs_manager m))"
proof -
  note ref = on_event_refines [OF assms(1,2,4)]
  show "cm_inv m1" "abs_manager m1 = snd (spec_event ev (abs_manager m))"
    "length (spawned (cm_tasks m1)) \<le> Suc (length (spawned (cm_tasks m)))" using ref by auto
  have "r = Ok () \<and> receiver_alive (deadman_client (cm_sink m1)) \<and> sent (deadman_client (cm_sink m1))
      = sent (deadman_client (cm_sink m)) @ map request_of (event_keys ev (abs_manager m))"
  proof (cases "\<exists>e. ev = Osk e \<and> fst (spec_event ev (abs_manager m))")
    case True
    then obtain e where e: "ev = Osk e" "fst (spec_event ev (abs_manager m))" by blast
    with ref have "deadman_handler send (cm_osk_handler m) (osk_event_key e) (osk_event_reason e) (cm_sink m)
        = (r, cm_sink m1)" by simp
    from deadman_handler_sends [OF assms(3) this] e show ?thesis
      by (simp add: request_of_def event_keys_def)
  next
    case False
    then show ?thesis using ref assms(3) by (auto simp: event_keys_def split: stream_event.splits)
  qed
  then show "r = Ok ()" "receiver_alive (deadman_client (cm_sink m1))"
    "sent (deadman_client (cm_sink m1)) = sent (deadman_client (cm_sink m))
       @ map request_of (event_keys ev (abs_manager m))" by blast+
qed

lemma manager_event_loop_sends:
  assumes "cm_inv m" "length (spawned (cm_tasks m)) + length xs < 2 ^ 64"
    and "receiver_alive (deadman_client (cm_sink m))"
  shows "sent (deadman_client (cm_sink (loop_world (manager_event_loop oc (deadman_handler send) xs m))))
     = sent (deadman_client (cm_sink m)) @ map request_of (accepted_keys xs (abs_manager m))"
  using assms
proof (induction xs arbitrary: m)
  case (Cons x xs)
  show ?case
  proof (cases "selected_event x")
    case (Ok ev)
    obtain r m1 where m1: "on_event oc (deadman_handler send) ev m = (r, m1)" by fastforce
    have "Suc (length (spawned (cm_tasks m))) < 2 ^ 64" using Cons.prems(2) by simp
    note sends = on_event_sends [OF Cons.prems(1) this Cons.prems(3) m1]
    then have "manager_event_loop oc (deadman_handler send) (x # xs) m
        = manager_event_loop oc (deadman_handler send) xs m1" using Ok m1 by simp
    with Cons.IH [of m1] sends Cons.prems(2) Ok show ?thesis by simp
  qed simp_all
qed simp

end

interpretation requests: request_channel channel_send queue rx_alive
  by (rule request_channel.intro) (rule chan.mpsc_axioms)

lemma new_manager_sends:
  assumes "length xs < 2 ^ 64"
  shows "queue (deadman_client (cm_sink (loop_world (manager_event_loop oc (deadman_handler channel_send) xs
      (connection_manager_new params etsi h interval \<lparr>deadman_client = \<lparr>queue = [], rx_alive = True\<rparr>\<rparr>)))))
    = map request_of (accepted_keys xs spec_start)"
  using requests.manager_event_loop_sends [OF cm_inv_new, of params etsi h interval
      "\<lparr>deadman_client = \<lparr>queue = [], rx_alive = True\<rparr>\<rparr>" xs oc] assms by simp

section \<open>The worker behind the channel\<close>

fun received :: "(recv_result \<times> key) list \<Rightarrow> deadman_request list" where
  "received [] = []"
| "received ((Received q, rnd) # ws) = q # received ws"
| "received ((Closed, rnd) # ws) = received ws"
| "received ((Timeout, rnd) # ws) = received ws"
| "received ((Deadline_Overflow, rnd) # ws) = received ws"

text \<open>
  The worker, started in \<open>w\<close>, has handled the given requests in some run, the last
  of them most recently, and is still running in \<open>w'\<close>.
\<close>

definition caught_up :: "('h, 'w) set_osk \<Rightarrow> 'h \<Rightarrow> deadman_request list \<Rightarrow> 'w \<Rightarrow> 'w \<Rightarrow> bool" where
  "caught_up set_osk b reqs w w' \<longleftrightarrow> (\<exists>rnd waits q rnd'. is_key rnd
     \<and> list_all wait_ok (waits @ [(Received q, rnd')]) \<and> received (waits @ [(Received q, rnd')]) = reqs
     \<and> deadman_event_loop set_osk b rnd (waits @ [(Received q, rnd')]) w = Running w')"

lemma received_append: "received (xs @ ys) = received xs @ received ys"
  by (induction xs rule: received.induct) simp_all

lemma deadman_loop_split:
  "deadman_loop set_osk b (xs @ ys) w = Running w' \<Longrightarrow>
   \<exists>w1. deadman_loop set_osk b xs w = Running w1 \<and> deadman_loop set_osk b ys w1 = Running w'"
  by (induction set_osk b xs w rule: deadman_loop.induct) (auto split: prod.splits outcome.splits bool.splits)

context osk_sink
begin

lemma deadman_loop_ready:
  "deadman_loop set_osk b ws w = Running w' \<Longrightarrow> ready b w \<Longrightarrow> list_all wait_ok ws \<Longrightarrow> ready b w'"
proof (induction ws arbitrary: w)
  case (Cons q ws)
  obtain req rnd where q: "q = (req, rnd)" by fastforce
  obtain w1 where it: "deadman_iteration set_osk b rnd req w = (Ok True, w1)"
    and loop: "deadman_loop set_osk b ws w1 = Running w'"
    using Cons.prems(1) q by (auto split: prod.splits outcome.splits bool.splits)
  have "ready b w1" using it Cons.prems(2,3) q set_ready
    by (cases "(req, rnd)" rule: wait_ok.cases) (auto simp: deadman_iteration_Ok)
  with Cons.IH [OF loop] Cons.prems(3) show ?case by simp
qed simp

lemma caught_up_installs:
  assumes "caught_up set_osk b reqs w w'" "ready b w"
  shows "reqs \<noteq> []" and "installed b w' = Some (request_key (last reqs))"
proof -
  obtain rnd waits q rnd' where k: "is_key rnd" and ok: "list_all wait_ok (waits @ [(Received q, rnd')])"
    and reqs: "reqs = received waits @ [q]"
    and run: "deadman_event_loop set_osk b rnd (waits @ [(Received q, rnd')]) w = Running w'"
    using assms(1) by (auto simp: caught_up_def received_append)
  obtain w1 where w1: "erase_stale_osk set_osk rnd b w = (Ok (), w1)"
    and loop: "deadman_loop set_osk b (waits @ [(Received q, rnd')]) w1 = Running w'"
    using run by (auto simp: deadman_event_loop_def split: prod.splits outcome.splits)
  obtain w2 where w2: "deadman_loop set_osk b waits w1 = Running w2"
    and last: "deadman_loop set_osk b [(Received q, rnd')] w2 = Running w'"
    using deadman_loop_split [OF loop] by blast
  have "ready b w2" using deadman_loop_ready [OF w2 erase_replaces(2) [OF assms(2) k w1]] ok by simp
  moreover have "set_osk b (request_key q) (case q of SetOsk k r \<Rightarrow> r) w2 = (Ok (), w')"
    using last by (cases q) (auto simp: deadman_iteration_Ok split: prod.splits outcome.splits bool.splits)
  moreover have "is_key (request_key q)" using ok by (cases q) simp
  ultimately show "reqs \<noteq> []" "installed b w' = Some (request_key (last reqs))"
    using set_installs reqs by auto
qed

end

context reliable_sink
begin

lemma caught_up_exists:
  assumes "list_all (is_key \<circ> request_key) (reqs @ [q])" "ready b w"
  shows "\<exists>w'. caught_up set_osk b (reqs @ [q]) w w'"
proof -
  let ?ws = "map (\<lambda>q. (Received q, key_new_zeroed)) (reqs @ [q])"
  have "wait_ok (Received r, key_new_zeroed)" if "is_key (request_key r)" for r
    using that by (cases r) simp
  with assms(1) have ok: "list_all wait_ok ?ws" by (auto simp: list_all_iff)
  have rec: "received (map (\<lambda>q. (Received q, key_new_zeroed)) qs) = qs" for qs by (induction qs) simp_all
  have "list_all (keeps_waiting \<circ> fst) ?ws" by (simp add: list_all_iff)
  with deadman_event_loop_runs [OF is_key_new_zeroed ok _ assms(2)]
  obtain w' where "deadman_event_loop set_osk b key_new_zeroed ?ws w = Running w'" by blast
  with ok rec [of "reqs @ [q]"] show ?thesis unfolding caught_up_def
    by (intro exI [of _ w'] exI [of _ key_new_zeroed] exI [of _ "map (\<lambda>q. (Received q, key_new_zeroed)) reqs"]
        exI [of _ q]) simp
qed

end

section \<open>One connection through the pipeline\<close>

text \<open>What the channels of a session's two sides have taken up.\<close>

lemma session_server_events:
  assumes "(session_step (fanout_set_osk channel_send) cs C srv cl other)\<^sup>*\<^sup>*
      (session_start sq cq e \<lparr>queue = [], rx_alive = True\<rparr> w) s"
    and "server_at s \<noteq> Server_Ended"
  shows "queue (server_sink s)
     = map (fresh_key_event (fanout_connection_id (srv_osk_handler srv))) (server_keys s)"
proof -
  let ?log = "\<lambda>ks c. rx_alive c \<and> queue c
      = map (fresh_key_event (fanout_connection_id (srv_osk_handler srv))) ks"
  have "server_at s \<noteq> Server_Ended \<longrightarrow> ?log (server_keys s) (server_sink s)"
  proof (rule session_run_server_log [OF assms(1)])
    fix ks k x x'
    assume "?log ks x" "fanout_set_osk channel_send (srv_osk_handler srv) k Fresh x = (Ok (), x')"
    with events.fanout_set_osk_result [OF this(2)] show "?log (ks @ [k]) x'"
      by (simp add: fresh_key_event_def)
  qed simp
  with assms(2) show ?thesis by blast
qed

lemma session_client_requests:
  assumes "(session_step ss (deadman_handler channel_send) C srv cl other)\<^sup>*\<^sup>*
      (session_start sq cq e v \<lparr>deadman_client = \<lparr>queue = earlier, rx_alive = True\<rparr>\<rparr>) s"
    and "client_at s \<noteq> Client_Ended"
  shows "queue (deadman_client (client_sink s)) = earlier @ map (\<lambda>k. SetOsk k Fresh) (client_keys s)"
proof -
  let ?log = "\<lambda>ks d. rx_alive (deadman_client d)
      \<and> queue (deadman_client d) = earlier @ map (\<lambda>k. SetOsk k Fresh) ks"
  have "client_at s \<noteq> Client_Ended \<longrightarrow> ?log (client_keys s) (client_sink s)"
  proof (rule session_run_client_log [OF assms(1)])
    fix ks k x x'
    assume "?log ks x" "deadman_handler channel_send (cl_osk_handler cl) k Fresh x = (Ok (), x')"
    with requests.deadman_handler_sends [OF _ this(2)] show "?log (ks @ [k]) x'" by simp
  qed simp
  with assms(2) show ?thesis by blast
qed

section \<open>Many connections\<close>

text \<open>
  The notifications of one connection among the events the manager has taken, and
  the state of the specification after events that the loop survives.
\<close>

fun event_connection :: "connection_handler_event \<Rightarrow> connection_id" where
  "event_connection (Handler_Exit x) = exit_connection_id x"
| "event_connection (Handler_Osk x) = osk_connection_id x"

fun from_connection :: "connection_id \<Rightarrow> 's selected \<Rightarrow> bool" where
  "from_connection i (Notified ev) \<longleftrightarrow> event_connection ev = i"
| "from_connection i _ \<longleftrightarrow> False"

fun is_accept :: "'s selected \<Rightarrow> bool" where
  "is_accept (Accepted a) \<longleftrightarrow> True"
| "is_accept _ \<longleftrightarrow> False"

fun spec_run :: "'s selected list \<Rightarrow> spec_manager \<Rightarrow> spec_manager" where
  "spec_run [] s = s"
| "spec_run (x # xs) s = (case selected_event x of
     Ok ev \<Rightarrow> spec_run xs (snd (spec_event ev s)) | _ \<Rightarrow> spec_run xs s)"

abbreviation survives :: "'s selected list \<Rightarrow> bool" where
  "survives xs \<equiv> list_all (\<lambda>x. is_Ok (selected_event x)) xs"

lemma event_connection_fresh [simp]: "event_connection (fresh_key_event i k) = i"
  by (simp add: fresh_key_event_def)

lemma selected_simps [simp]:
  "selected_event (Accepted a) = Ok (Accept a)"
  "selected_event (Notified (Handler_Osk x)) = Ok (Osk x)"
  "selected_event (Notified (Handler_Exit y)) = Ok (Exit y)"
  "selected_event (Notified (fresh_key_event i k))
     = Ok (Osk \<lparr>osk_connection_id = i, osk_event_key = k, osk_event_reason = Fresh\<rparr>)"
  by (simp_all add: selected_event_def stream_event_from_def fresh_key_event_def)

lemma spec_event_simps [simp]:
  "spec_event (Accept a) s = (False, spec_accept s)"
  "spec_event (Exit y) s = (False, spec_exit (unat (exit_connection_id y)) s)"
  "spec_event (Osk x) s = spec_osk (unat (osk_connection_id x)) s"
  by (simp_all add: spec_event_def)

lemma event_keys_simps [simp]:
  "event_keys (Accept a) s = []" "event_keys (Exit y) s = []"
  "event_keys (Osk x) s = (if fst (spec_osk (unat (osk_connection_id x)) s)
     then [(osk_event_key x, osk_event_reason x)] else [])"
  by (simp_all add: event_keys_def spec_event_def)

lemma selected_cases:
  assumes "is_Ok (selected_event x)"
  obtains (Accepted) a where "x = Accepted a"
    | (Osk) y where "x = Notified (Handler_Osk y)" | (Exit) y where "x = Notified (Handler_Exit y)"
  using assms
  by (cases x) (auto simp: selected_event_def intro: connection_handler_event.exhaust)

lemma accepted_keys_append:
  "survives xs \<Longrightarrow> accepted_keys (xs @ ys) s = accepted_keys xs s @ accepted_keys ys (spec_run xs s)"
  by (induction xs s rule: accepted_keys.induct) (auto simp: is_Ok_iff)

lemma spec_event_ordered: "spec_ordered s \<Longrightarrow> spec_ordered (snd (spec_event ev s))"
  by (cases ev) (auto simp: spec_event_def spec_ordered_def spec_accept_def spec_exit_def spec_osk_def
      less_Suc_eq)

lemma spec_run_ordered: "spec_ordered s \<Longrightarrow> spec_ordered (spec_run xs s)"
  by (induction xs s rule: spec_run.induct) (auto split: outcome.splits intro: spec_event_ordered)

lemma spec_run_next:
  "survives xs \<Longrightarrow> spec_next (spec_run xs s) = spec_next s + length (filter is_accept xs)"
proof (induction xs s rule: spec_run.induct)
  case (2 x xs s)
  then have "is_Ok (selected_event x)" by simp
  then show ?case
    by (cases rule: selected_cases)
      (use 2 in \<open>auto simp: spec_accept_def spec_exit_def spec_osk_def\<close>)
qed simp

lemma spec_ordered_start [simp]: "spec_ordered spec_start"
  by (simp add: spec_ordered_def spec_start_def)

text \<open>The newest connection while it waits for its first key, and once it is active.\<close>

definition newest_active :: "nat \<Rightarrow> spec_manager \<Rightarrow> bool" where
  "newest_active n s \<longleftrightarrow> spec_active s = Some n \<and> spec_budding s = {}"

definition newest_budding :: "nat \<Rightarrow> spec_manager \<Rightarrow> bool" where
  "newest_budding n s \<longleftrightarrow> n \<in> spec_budding s \<and> (\<forall>i \<in> spec_budding s. i \<le> n)
     \<and> (\<forall>i. spec_active s = Some i \<longrightarrow> i < n)"

lemma newest_active_event:
  assumes "newest_active n s" "is_Ok (selected_event x)" "\<not> is_accept x"
    and "\<not> from_connection (of_nat n) x" "n < 2 ^ 64"
  shows "accepted_keys (x # xs) s = accepted_keys xs s"
  using assms(2)
proof (cases rule: selected_cases)
  case (Osk y)
  then have "unat (osk_connection_id y) \<noteq> n" using assms(4,5) by (auto simp: unat_of_nat_u64)
  then show ?thesis using assms(1) Osk by (simp add: newest_active_def spec_osk_def)
next
  case (Exit y)
  then have "unat (exit_connection_id y) \<noteq> n" using assms(4,5) by auto
  then have "spec_exit (unat (exit_connection_id y)) s = s"
    using assms(1) by (simp add: newest_active_def spec_exit_def)
  then show ?thesis using Exit by simp
qed (use assms(3) in simp)

lemma newest_active_keys:
  assumes "n < 2 ^ 64" "newest_active n s" "survives zs" "\<not> list_ex is_accept zs"
    and "filter (from_connection (of_nat n)) zs = map (\<lambda>k. Notified (fresh_key_event (of_nat n) k)) ks"
  shows "accepted_keys zs s = map (\<lambda>k. (k, Fresh)) ks"
  using assms(3-5)
proof (induction zs arbitrary: ks)
  case (Cons x zs)
  show ?case
  proof (cases "from_connection (of_nat n) x")
    case True
    with Cons.prems(3) obtain k ks' where ks: "ks = k # ks'" "x = Notified (fresh_key_event (of_nat n) k)"
      by (cases ks) auto
    have "spec_osk n s = (True, s)" using assms(2) by (simp add: newest_active_def spec_osk_def)
    with Cons.IH [of ks'] Cons.prems ks assms(1) show ?thesis by (simp add: unat_of_nat_u64)
  next
    case False
    with Cons newest_active_event [OF assms(2) _ _ False assms(1), of zs] show ?thesis by simp
  qed
qed simp

lemma newest_budding_event:
  assumes "newest_budding n s" "is_Ok (selected_event x)" "\<not> is_accept x"
    and "\<not> from_connection (of_nat n) x" "n < 2 ^ 64"
  shows "\<exists>ks s'. accepted_keys (x # xs) s = ks @ accepted_keys xs s' \<and> newest_budding n s'"
  using assms(2)
proof (cases rule: selected_cases)
  case (Osk y)
  then have "unat (osk_connection_id y) \<noteq> n" using assms(4,5) by auto
  then have "newest_budding n (snd (spec_osk (unat (osk_connection_id y)) s))"
    using assms(1) by (auto simp: newest_budding_def spec_osk_def)
  then show ?thesis using Osk by (intro exI conjI) auto
next
  case (Exit y)
  then have "unat (exit_connection_id y) \<noteq> n" using assms(4,5) by auto
  then have "newest_budding n (spec_exit (unat (exit_connection_id y)) s)"
    using assms(1) by (auto simp: newest_budding_def spec_exit_def)
  then show ?thesis using Exit by (intro exI [of _ "[]"]) auto
qed (use assms(3) in simp)

lemma newest_budding_keys:
  assumes "n < 2 ^ 64" "newest_budding n s" "survives zs" "\<not> list_ex is_accept zs"
    and "filter (from_connection (of_nat n)) zs = map (\<lambda>k. Notified (fresh_key_event (of_nat n) k)) ks"
  shows "\<exists>older. accepted_keys zs s = older @ map (\<lambda>k. (k, Fresh)) ks"
  using assms(2-5)
proof (induction zs arbitrary: s)
  case (Cons x zs)
  show ?case
  proof (cases "from_connection (of_nat n) x")
    case True
    with Cons.prems(4) obtain k ks' where ks: "ks = k # ks'" "x = Notified (fresh_key_event (of_nat n) k)"
      and rest: "filter (from_connection (of_nat n)) zs = map (\<lambda>k. Notified (fresh_key_event (of_nat n) k)) ks'"
      by (cases ks) auto
    have osk: "fst (spec_osk n s)" "newest_active n (snd (spec_osk n s))"
      using Cons.prems(1) by (auto simp: newest_budding_def newest_active_def spec_osk_def not_less)
    have "accepted_keys zs (snd (spec_osk n s)) = map (\<lambda>k. (k, Fresh)) ks'"
      by (rule newest_active_keys [OF assms(1) osk(2) _ _ rest]) (use Cons.prems in auto)
    then show ?thesis using ks osk(1) assms(1) by (intro exI [of _ "[]"]) (simp add: unat_of_nat_u64)
  next
    case False
    from Cons.prems newest_budding_event [OF Cons.prems(1) _ _ False assms(1), of zs]
    obtain ks0 s' where "accepted_keys (x # zs) s = ks0 @ accepted_keys zs s'" "newest_budding n s'" by auto
    with Cons.IH [of s'] Cons.prems False show ?thesis by force
  qed
qed simp

lemma accepted_keys_newest:
  assumes "survives (ys @ Accepted a # zs)" "length (filter is_accept ys) = n" "n < 2 ^ 64"
    and "\<not> list_ex is_accept zs"
    and "filter (from_connection (of_nat n)) zs = map (\<lambda>k. Notified (fresh_key_event (of_nat n) k)) ks"
  shows "\<exists>older. accepted_keys (ys @ Accepted a # zs) spec_start = older @ map (\<lambda>k. (k, Fresh)) ks"
proof -
  let ?s = "spec_run ys spec_start"
  have "spec_next ?s = n" using assms(1,2) spec_run_next [of ys spec_start] by (simp add: spec_start_def)
  moreover have "spec_ordered ?s" by (rule spec_run_ordered) simp
  ultimately
  have "newest_budding n (spec_accept ?s)"
    by (auto simp: newest_budding_def spec_accept_def spec_ordered_def less_imp_le)
  from newest_budding_keys [OF assms(3) this _ assms(4,5)] assms(1) show ?thesis
    by (force simp: accepted_keys_append)
qed

section \<open>Properties\<close>

text \<open>
  C11: what the server's host ends up with. The requests in the channel of the deadman
  switch are, in order, the keys of the events that the specification of the
  connection manager accepts, whatever the events; and once the worker has handled
  them, its target holds the key of the last one.
\<close>

theorem server_delivers_accepted_keys:
  assumes "length xs < 2 ^ 64"
    and "manager_event_loop overflow_checks (deadman_handler channel_send) xs
           (connection_manager_new params etsi h interval
              \<lparr>deadman_client = \<lparr>queue = [], rx_alive = True\<rparr>\<rparr>) = res"
    and "osk_sink set_osk inst rdy" and "rdy b w"
    and "caught_up set_osk b (queue (deadman_client (cm_sink (loop_world res)))) w w'"
  shows "queue (deadman_client (cm_sink (loop_world res))) = map request_of (accepted_keys xs spec_start)
     \<and> inst b w' = Some (fst (last (accepted_keys xs spec_start)))"
proof -
  have q: "queue (deadman_client (cm_sink (loop_world res))) = map request_of (accepted_keys xs spec_start)"
    using new_manager_sends [OF assms(1)] unfolding assms(2) [symmetric] .
  from osk_sink.caught_up_installs [OF assms(3,5,4)] show ?thesis
    unfolding q by (simp add: last_map request_of_def)
qed

lemma out_caught_up:
  "list_all is_key ks \<Longrightarrow> is_key k \<Longrightarrow> \<exists>w. caught_up (outfile_set_osk rfc4648) out_handler
     (map (\<lambda>k. SetOsk k Fresh) ks @ [SetOsk k Fresh]) example_out_world w"
  by (rule out_rfc.caught_up_exists) (simp_all add: list_all_iff)

text \<open>Two connections; the key of the older one comes after that of the newer one and is dropped.\<close>

theorem server_delivers_accepted_keys_witness:
  "let xs = [Accepted \<lparr>accept_stream = (), accept_addr = ''a''\<rparr>, Accepted \<lparr>accept_stream = (), accept_addr = ''b''\<rparr>,
        Notified (fresh_key_event 1 (replicate 32 1)), Notified (fresh_key_event 0 (replicate 32 2))];
      res = manager_event_loop False (deadman_handler channel_send) xs
        (connection_manager_new example_params down_connection () 120
           \<lparr>deadman_client = \<lparr>queue = [], rx_alive = True\<rparr>\<rparr>)
   in queue (deadman_client (cm_sink (loop_world res))) = [SetOsk (replicate 32 1) Fresh]
      \<and> (\<exists>w. outfile_installed rfc4648 out_handler w = Some (replicate 32 1))"
proof -
  let ?a = "\<lparr>accept_stream = (), accept_addr = ''a''\<rparr>" and ?b = "\<lparr>accept_stream = (), accept_addr = ''b''\<rparr>"
  let ?xs = "[Accepted ?a, Accepted ?b,
      Notified (fresh_key_event 1 (replicate 32 1)), Notified (fresh_key_event 0 (replicate 32 2))]"
  let ?m = "connection_manager_new example_params down_connection () 120
      \<lparr>deadman_client = \<lparr>queue = [], rx_alive = True\<rparr>\<rparr>"
  let ?res = "manager_event_loop False (deadman_handler channel_send) ?xs ?m"
  have acc: "accepted_keys ?xs spec_start = [(replicate 32 1, Fresh)]"
    by (simp add: selected_event_def stream_event_from_def fresh_key_event_def spec_event_def spec_osk_def
        spec_accept_def spec_start_def MAX_BUDDING_CONNECTIONS_def insert_commute)
  have "queue (deadman_client (cm_sink (loop_world ?res))) = [SetOsk (replicate 32 1) Fresh]"
    by (subst new_manager_sends) (simp_all add: acc request_of_def del: accepted_keys.simps)
  moreover obtain w where "caught_up (outfile_set_osk rfc4648) out_handler [SetOsk (replicate 32 1) Fresh]
      example_out_world w" using out_caught_up [of "[]" "replicate 32 1"] by auto
  ultimately have "caught_up (outfile_set_osk rfc4648) out_handler
      (queue (deadman_client (cm_sink (loop_world ?res)))) example_out_world w" by simp
  from server_delivers_accepted_keys [OF _ refl rfc.outfile.osk_sink_axioms _ this] acc
  show ?thesis unfolding Let_def
    by (auto simp: request_of_def simp del: manager_event_loop.simps accepted_keys.simps)
qed

end
