(* ===== verification/Host.thy ===== *)
theory Host
  imports Pipeline
begin

text \<open>
  The server's host at run time: the connection manager, the tasks of its
  connections and the worker of the deadman switch take turns in any order. The two
  channels between them are bounded, the one of the tasks to the manager at
  \<open>connection_manager.rs:43\<close>, the one of the manager to the worker at
  \<open>deadman.rs:72\<close>: a task with a report waits for room, and so does the manager
  with a key. The steps use the handlers of \<open>Connection_Manager\<close> and the iteration
  of \<open>Deadman\<close> as they are.
\<close>

section \<open>State\<close>

definition NOTIFICATION_CAPACITY :: nat where
  "NOTIFICATION_CAPACITY = 16"

text \<open>
  \<open>in_hand\<close> is the event the manager has taken and not yet finished with. The
  requests wait in the channel behind the manager's handle. The last three fields
  record the history: what the tasks have reported, the events the manager has
  handled, and the waits of the worker.
\<close>

record ('h, 's, 'e, 'w) server_host =
  manager :: "('h, 's, 'e, deadman_request channel osk_deadman) connection_manager"
  notifications :: "connection_handler_event list"
  in_hand :: "'s selected option"
  manager_end :: "unit outcome option"
  worker_sink :: 'w
  worker_end :: "unit outcome option"
  reported :: "connection_handler_event list"
  handled :: "'s selected list"
  waited :: "(recv_result \<times> key) list"

abbreviation requests_of ::
  "('h, 's, 'e, deadman_request channel osk_deadman) connection_manager \<Rightarrow> deadman_request channel" where
  "requests_of m \<equiv> deadman_client (cm_sink m)"

abbreviation pending :: "('h, 's, 'e, 'w) server_host \<Rightarrow> deadman_request list" where
  "pending s \<equiv> queue (requests_of (manager s))"

definition on_requests ::
  "(deadman_request channel \<Rightarrow> deadman_request channel)
     \<Rightarrow> ('h, 's, 'e, deadman_request channel osk_deadman) connection_manager
     \<Rightarrow> ('h, 's, 'e, deadman_request channel osk_deadman) connection_manager" where
  "on_requests f m = m\<lparr>cm_sink := (cm_sink m)\<lparr>deadman_client := f (requests_of m)\<rparr>\<rparr>"

text \<open>How an iteration of the worker leaves its loop, if it does.\<close>

definition iteration_end :: "bool outcome \<Rightarrow> unit outcome option" where
  "iteration_end r = (case r of Ok True \<Rightarrow> None | Ok False \<Rightarrow> Some (Ok ())
     | Err e \<Rightarrow> Some (Err e) | Panic m \<Rightarrow> Some (Panic m))"

definition outcome_end :: "unit outcome \<Rightarrow> unit outcome option" where
  "outcome_end r = (if is_Ok r then None else Some r)"

text \<open>
  When a wait can have a result: a request is at the head of the channel, or the
  channel is empty and its senders are gone, which takes the end of the manager. The
  steps of a host have no clock: the deadline may pass, or prove not to be a
  representable instant, at any time.
\<close>

fun recv_ready :: "recv_result \<Rightarrow> ('h, 's, 'e, 'w) server_host \<Rightarrow> bool" where
  "recv_ready (Received q) s \<longleftrightarrow> pending s \<noteq> [] \<and> hd (pending s) = q"
| "recv_ready Closed s \<longleftrightarrow> pending s = [] \<and> manager_end s \<noteq> None"
| "recv_ready Timeout s \<longleftrightarrow> True"
| "recv_ready Deadline_Overflow s \<longleftrightarrow> True"

fun recv_rest :: "recv_result \<Rightarrow> deadman_request list \<Rightarrow> deadman_request list" where
  "recv_rest (Received q) qs = tl qs"
| "recv_rest Closed qs = qs"
| "recv_rest Timeout qs = qs"
| "recv_rest Deadline_Overflow qs = qs"

section \<open>Steps\<close>

text \<open>A report of a connection's task: its exit or a fresh key.\<close>

fun report_ok :: "connection_handler_event \<Rightarrow> bool" where
  "report_ok (Handler_Exit x) \<longleftrightarrow> True"
| "report_ok (Handler_Osk x) \<longleftrightarrow> is_key (osk_event_key x) \<and> osk_event_reason x = Fresh"

datatype host_action = Accepts | Reports | Takes | Handles | Fails | Works recv_result

text \<open>
  A handler of the manager runs to its end in one step, which needs the room for its
  request; the tasks it aborts may therefore report until then, which the code may
  prevent earlier. When the manager's loop returns, the manager is dropped; when the
  worker's loop returns, its end of the channel is.
\<close>

inductive host_step ::
  "bool \<Rightarrow> ('b, 'w) set_osk \<Rightarrow> 'b \<Rightarrow> host_action \<Rightarrow> ('h, 's, 'e, 'w) server_host
     \<Rightarrow> ('h, 's, 'e, 'w) server_host \<Rightarrow> bool"
  for overflow_checks set_osk broker where
  accepts: "manager_end s = None \<Longrightarrow> in_hand s = None \<Longrightarrow> x = Accepted a \<or> x = Accept_Failed e \<Longrightarrow>
    host_step overflow_checks set_osk broker Accepts s (s\<lparr>in_hand := Some x\<rparr>)"
| reports: "manager_end s = None \<Longrightarrow> unat (event_connection ev) \<in> live_tasks (manager s) \<Longrightarrow> report_ok ev \<Longrightarrow>
    length (notifications s) < NOTIFICATION_CAPACITY \<Longrightarrow>
    host_step overflow_checks set_osk broker Reports s
      (s\<lparr>notifications := notifications s @ [ev], reported := reported s @ [ev]\<rparr>)"
| takes: "manager_end s = None \<Longrightarrow> in_hand s = None \<Longrightarrow> notifications s = ev # evs \<Longrightarrow>
    host_step overflow_checks set_osk broker Takes s
      (s\<lparr>notifications := evs, in_hand := Some (Notified ev)\<rparr>)"
| handles: "manager_end s = None \<Longrightarrow> in_hand s = Some x \<Longrightarrow>
    bind_st (selected_event x, manager s) (on_event overflow_checks (deadman_handler channel_send)) = (Ok (), m) \<Longrightarrow>
    length (queue (requests_of m)) \<le> REQUEST_CAPACITY \<Longrightarrow>
    host_step overflow_checks set_osk broker Handles s
      (s\<lparr>manager := m, in_hand := None, handled := handled s @ [x]\<rparr>)"
| fails: "manager_end s = None \<Longrightarrow> in_hand s = Some x \<Longrightarrow>
    bind_st (selected_event x, manager s) (on_event overflow_checks (deadman_handler channel_send)) = (r, m) \<Longrightarrow>
    \<not> is_Ok r \<Longrightarrow>
    host_step overflow_checks set_osk broker Fails s
      (s\<lparr>manager := drop_manager m, in_hand := None, handled := handled s @ [x], manager_end := Some r\<rparr>)"
| works: "worker_end s = None \<Longrightarrow> recv_ready req s \<Longrightarrow> is_key rnd \<Longrightarrow>
    deadman_iteration set_osk broker rnd req (worker_sink s) = (r, w) \<Longrightarrow>
    host_step overflow_checks set_osk broker (Works req) s
      (s\<lparr>manager := on_requests (\<lambda>c. c\<lparr>queue := recv_rest req (queue c), rx_alive := iteration_end r = None\<rparr>)
           (manager s),
         worker_sink := w, worker_end := iteration_end r, waited := waited s @ [(req, rnd)]\<rparr>)"

inductive_cases host_stepE: "host_step overflow_checks set_osk broker act s s'"

text \<open>
  A host starts with its new manager and the worker's first erasure, which does not
  depend on anything else.
\<close>

definition host_start ::
  "('b, 'w) set_osk \<Rightarrow> 'b \<Rightarrow> key \<Rightarrow> daisyway_protocol_parameters \<Rightarrow> 'e etsi014_connection \<Rightarrow> 'h \<Rightarrow> u64 \<Rightarrow> 'w
     \<Rightarrow> ('h, 's, 'e, 'w) server_host" where
  "host_start set_osk broker rnd params etsi h interval w =
     (let (r, w') = erase_stale_osk set_osk rnd broker w
      in \<lparr>manager = connection_manager_new params etsi h interval
             \<lparr>deadman_client = \<lparr>queue = [], rx_alive = is_Ok r\<rparr>\<rparr>,
          notifications = [], in_hand = None, manager_end = None, worker_sink = w',
          worker_end = outcome_end r, reported = [], handled = [], waited = []\<rparr>)"

inductive host_run ::
  "bool \<Rightarrow> ('b, 'w) set_osk \<Rightarrow> 'b \<Rightarrow> host_action list \<Rightarrow> ('h, 's, 'e, 'w) server_host
     \<Rightarrow> ('h, 's, 'e, 'w) server_host \<Rightarrow> bool"
  for overflow_checks set_osk broker where
  none: "host_run overflow_checks set_osk broker [] s s"
| more: "host_run overflow_checks set_osk broker acts s s' \<Longrightarrow>
    host_step overflow_checks set_osk broker act s' s'' \<Longrightarrow>
    host_run overflow_checks set_osk broker (acts @ [act]) s s''"

lemma host_run_trans:
  "host_run oc set_osk b ys s' s'' \<Longrightarrow> host_run oc set_osk b xs s s' \<Longrightarrow> host_run oc set_osk b (xs @ ys) s s''"
  by (induction rule: host_run.induct) (auto simp: append_assoc [symmetric] intro: host_run.more simp del: append_assoc)

section \<open>Invariants\<close>

fun notified :: "'s selected list \<Rightarrow> connection_handler_event list" where
  "notified [] = []"
| "notified (Notified ev # xs) = ev # notified xs"
| "notified (Accepted a # xs) = notified xs"
| "notified (Accept_Failed e # xs) = notified xs"
| "notified (Notify_Closed # xs) = notified xs"

definition hand_list :: "'a option \<Rightarrow> 'a list" where
  "hand_list x = (case x of None \<Rightarrow> [] | Some y \<Rightarrow> [y])"

text \<open>Reports reach the manager in order, and no channel holds more than it has room for.\<close>

definition host_fifo :: "('h, 's, 'e, 'w) server_host \<Rightarrow> bool" where
  "host_fifo s \<longleftrightarrow> notified (handled s @ hand_list (in_hand s)) @ notifications s = reported s
     \<and> list_all report_ok (reported s) \<and> in_hand s \<noteq> Some Notify_Closed
     \<and> length (notifications s) \<le> NOTIFICATION_CAPACITY \<and> length (pending s) \<le> REQUEST_CAPACITY"

text \<open>
  While the manager runs, the requests received and pending are the accepted keys;
  it ends only over an error of the listener, or over a key that it could not send
  because the worker has ended.
\<close>

definition host_keys :: "('h, 's, 'e, 'w) server_host \<Rightarrow> bool" where
  "host_keys s \<longleftrightarrow> rx_alive (requests_of (manager s)) = (worker_end s = None)
     \<and> (case manager_end s of
          None \<Rightarrow> cm_inv (manager s) \<and> abs_manager (manager s) = spec_run (handled s) spec_start
            \<and> survives (handled s) \<and> length (spawned (cm_tasks (manager s))) \<le> length (handled s)
            \<and> received (waited s) @ pending s = map request_of (accepted_keys (handled s) spec_start)
        | Some r \<Rightarrow> prefix (received (waited s) @ pending s) (map request_of (accepted_keys (handled s) spec_start))
            \<and> ((\<exists>e. r = Err e \<and> last (handled s) = Accept_Failed e)
               \<or> r = Err SendError \<and> worker_end s \<noteq> None))"

definition host_worker ::
  "('b, 'w) set_osk \<Rightarrow> 'b \<Rightarrow> key \<Rightarrow> 'w \<Rightarrow> ('h, 's, 'e, 'w) server_host \<Rightarrow> bool" where
  "host_worker set_osk b rnd w s \<longleftrightarrow> deadman_event_loop set_osk b rnd (waited s) w
     = (case worker_end s of None \<Rightarrow> Running (worker_sink s) | Some r \<Rightarrow> Returned r (worker_sink s))"

text \<open>Only whole keys are in the channel to the worker.\<close>

definition host_whole :: "('h, 's, 'e, 'w) server_host \<Rightarrow> bool" where
  "host_whole s \<longleftrightarrow> list_all wait_ok (waited s) \<and> list_all (is_key \<circ> request_key) (pending s)"

definition host_inv ::
  "('b, 'w) set_osk \<Rightarrow> 'b \<Rightarrow> key \<Rightarrow> 'w \<Rightarrow> ('h, 's, 'e, 'w) server_host \<Rightarrow> bool" where
  "host_inv set_osk b rnd w s \<longleftrightarrow> host_fifo s \<and> host_keys s \<and> host_worker set_osk b rnd w s \<and> host_whole s"

text \<open>The steps of manager and worker that need nothing from outside, and the work left for them.\<close>

fun internal :: "host_action \<Rightarrow> bool" where
  "internal Takes \<longleftrightarrow> True"
| "internal Handles \<longleftrightarrow> True"
| "internal Fails \<longleftrightarrow> True"
| "internal (Works (Received q)) \<longleftrightarrow> True"
| "internal _ \<longleftrightarrow> False"

definition host_agenda :: "('h, 's, 'e, 'w) server_host \<Rightarrow> 's selected list" where
  "host_agenda s = handled s @ hand_list (in_hand s) @ map Notified (notifications s)"

definition host_load :: "('h, 's, 'e, 'w) server_host \<Rightarrow> nat" where
  "host_load s = 3 * length (notifications s) + 2 * length (hand_list (in_hand s)) + length (pending s)"

section \<open>Lemmas\<close>

lemma notified_append [simp]: "notified (xs @ ys) = notified xs @ notified ys"
  by (induction xs rule: notified.induct) simp_all

lemma hand_list_simps [simp]: "hand_list None = []" "hand_list (Some x) = [x]"
  by (simp_all add: hand_list_def)

lemma on_requests_simps [simp]:
  "requests_of (on_requests f m) = f (requests_of m)" "cm_tasks (on_requests f m) = cm_tasks m"
  "cm_inv (on_requests f m) = cm_inv m" "abs_manager (on_requests f m) = abs_manager m"
  by (simp_all add: on_requests_def cm_inv_def abs_manager_def)

lemma drop_manager_sink [simp]: "cm_sink (drop_manager m) = cm_sink m"
  by (simp add: drop_manager_def)


lemma deadman_handler_dead:
  "\<not> rx_alive (deadman_client d) \<Longrightarrow> deadman_handler channel_send h k r d = (Err SendError, d)"
  by (simp add: deadman_handler_def deadman_set_osk_def channel_send_def)

text \<open>The manager's loop is left over an error of the listener or a dead worker only.\<close>

lemma failing_event:
  assumes "cm_inv m" "Suc (length (spawned (cm_tasks m))) < 2 ^ 64"
    and "bind_st (selected_event x, m) (on_event oc (deadman_handler channel_send)) = (r, m')"
    and "\<not> is_Ok r" "x \<noteq> Notify_Closed"
  shows "requests_of m' = requests_of m \<and> ((\<exists>e. r = Err e \<and> x = Accept_Failed e)
     \<or> r = Err SendError \<and> \<not> rx_alive (requests_of m) \<and> is_Ok (selected_event x))"
proof (cases "is_Ok (selected_event x)")
  case True
  then obtain ev where ev: "selected_event x = Ok ev" by (auto simp: is_Ok_iff)
  with assms(3) have on: "on_event oc (deadman_handler channel_send) ev m = (r, m')" by simp
  have dead: "\<not> rx_alive (requests_of m)"
    using requests.on_event_sends(1) [OF assms(1,2) _ on] assms(4) by auto
  then show ?thesis
    using on_event_refines [OF assms(1,2) on] assms(4) True
    by (auto simp: deadman_handler_dead split: stream_event.splits if_splits)
next
  case False
  with assms(3-5) show ?thesis by (cases x) (auto simp: selected_event_def)
qed

lemma handled_event:
  assumes "cm_inv m" "Suc (length (spawned (cm_tasks m))) < 2 ^ 64"
    and "bind_st (selected_event x, m) (on_event oc (deadman_handler channel_send)) = (Ok (), m')"
  obtains ev where "selected_event x = Ok ev" "cm_inv m'" "abs_manager m' = snd (spec_event ev (abs_manager m))"
    "length (spawned (cm_tasks m')) \<le> Suc (length (spawned (cm_tasks m)))"
    "rx_alive (requests_of m') = rx_alive (requests_of m)"
    "queue (requests_of m') = queue (requests_of m) @ map request_of (event_keys ev (abs_manager m))"
proof -
  obtain ev where ev: "selected_event x = Ok ev"
    and on: "on_event oc (deadman_handler channel_send) ev m = (Ok (), m')"
    using assms(3) by (auto simp: outcome_inv)
  note ref = on_event_refines [OF assms(1,2) on]
  show thesis
  proof (cases "rx_alive (requests_of m)")
    case True
    from requests.on_event_sends [OF assms(1,2) True on] True ev show thesis by (intro that) auto
  next
    case False
    have "event_keys ev (abs_manager m) = [] \<and> cm_sink m' = cm_sink m"
      using ref False by (auto simp: event_keys_def deadman_handler_dead split: stream_event.splits if_splits)
    with ref ev show thesis by (intro that) auto
  qed
qed

lemma spec_run_append: "spec_run (xs @ ys) s = spec_run ys (spec_run xs s)"
  by (induction xs s rule: spec_run.induct) (auto split: outcome.splits)

lemma accepted_keys_snoc:
  "survives xs \<Longrightarrow> accepted_keys (xs @ [x]) s = accepted_keys xs s
     @ (case selected_event x of Ok ev \<Rightarrow> event_keys ev (spec_run xs s) | _ \<Rightarrow> [])"
  by (simp add: accepted_keys_append split: outcome.splits)

lemma received_snoc:
  "recv_ready req s \<Longrightarrow> received (waited s @ [(req, rnd)]) @ recv_rest req (pending s)
     = received (waited s) @ pending s"
  by (cases req) (auto simp: received_append)

lemma recv_rest_length: "length (recv_rest req qs) \<le> length qs"
  by (cases req) auto

lemma host_step_keys:
  assumes "host_step oc set_osk b act s s'" "host_keys s" "host_fifo s" "length (handled s') < 2 ^ 64"
  shows "host_keys s'"
  using assms
proof (induction rule: host_step.induct)
  case (handles s x m)
  have inv: "cm_inv (manager s)" "Suc (length (spawned (cm_tasks (manager s)))) < 2 ^ 64"
    using handles.hyps(1) handles.prems by (auto simp: host_keys_def)
  from handled_event [OF inv handles.hyps(3)] obtain ev where "selected_event x = Ok ev" "cm_inv m"
    "abs_manager m = snd (spec_event ev (abs_manager (manager s)))"
    "length (spawned (cm_tasks m)) \<le> Suc (length (spawned (cm_tasks (manager s))))"
    "rx_alive (requests_of m) = rx_alive (requests_of (manager s))"
    "queue (requests_of m) = queue (requests_of (manager s))
       @ map request_of (event_keys ev (abs_manager (manager s)))" .
  then show ?case using handles.hyps(1) handles.prems(1)
    by (simp add: host_keys_def accepted_keys_snoc spec_run_append)
next
  case (fails s x r m)
  have inv: "cm_inv (manager s)" "Suc (length (spawned (cm_tasks (manager s)))) < 2 ^ 64"
    using fails.hyps(1) fails.prems by (auto simp: host_keys_def)
  have x: "x \<noteq> Notify_Closed" using fails.hyps(2) fails.prems(2) by (simp add: host_fifo_def)
  note f = failing_event [OF inv fails.hyps(3,4) x]
  have "prefix (map request_of (accepted_keys (handled s) spec_start))
      (map request_of (accepted_keys (handled s @ [x]) spec_start))"
    using fails.hyps(1) fails.prems(1) by (simp add: host_keys_def accepted_keys_append)
  with f fails.hyps(1) fails.prems(1) show ?case by (auto simp: host_keys_def)
next
  case (works s req rnd r w)
  then show ?case
    using received_snoc [OF works.hyps(2)] by (simp add: host_keys_def split: option.splits)
qed (auto simp: host_keys_def)

lemma host_step_fifo:
  assumes "host_step oc set_osk b act s s'" "host_keys s" "host_fifo s" "length (handled s') < 2 ^ 64"
  shows "host_fifo s'"
  using assms
proof (induction rule: host_step.induct)
  case (fails s x r m)
  have inv: "cm_inv (manager s)" "Suc (length (spawned (cm_tasks (manager s)))) < 2 ^ 64"
    using fails.hyps(1) fails.prems by (auto simp: host_keys_def)
  have x: "x \<noteq> Notify_Closed" using fails.hyps(2) fails.prems(2) by (simp add: host_fifo_def)
  from failing_event [OF inv fails.hyps(3,4) x] fails.hyps(2) fails.prems(2) show ?case by (simp add: host_fifo_def)
next
  case (works s req rnd r w)
  then show ?case using order_trans [OF recv_rest_length] by (simp add: host_fifo_def)
qed (auto simp: host_fifo_def)

lemma host_step_worker:
  assumes "host_step oc set_osk b act s s'" "host_worker set_osk b rnd0 w0 s"
  shows "host_worker set_osk b rnd0 w0 s'"
  using assms
proof (induction rule: host_step.induct)
  case (works s req rnd r w)
  then have "deadman_event_loop set_osk b rnd0 (waited s @ [(req, rnd)]) w0
      = deadman_loop set_osk b [(req, rnd)] (worker_sink s)"
    by (intro deadman_event_loop_append) (simp add: host_worker_def)
  with works.hyps(4) show ?case
    by (auto simp: host_worker_def iteration_end_def split: outcome.splits bool.splits)
qed (simp_all add: host_worker_def split: option.splits)

lemma event_keys_whole:
  assumes "selected_event x = Ok ev" "list_all report_ok (notified [x])"
  shows "list_all (is_key \<circ> request_key) (map request_of (event_keys ev s))"
  using assms
  by (cases x; cases ev)
    (auto simp: selected_event_def stream_event_from_def event_keys_def request_of_def
      split: connection_handler_event.splits)

lemma host_step_whole:
  assumes "host_step oc set_osk b act s s'" "host_keys s" "host_fifo s" "host_whole s"
    and "length (handled s') < 2 ^ 64"
  shows "host_whole s'"
  using assms
proof (induction rule: host_step.induct)
  case (handles s x m)
  have inv: "cm_inv (manager s)" "Suc (length (spawned (cm_tasks (manager s)))) < 2 ^ 64"
    using handles.hyps(1) handles.prems by (auto simp: host_keys_def)
  from handled_event [OF inv handles.hyps(3)] obtain ev where ev: "selected_event x = Ok ev"
    "queue (requests_of m) = queue (requests_of (manager s))
       @ map request_of (event_keys ev (abs_manager (manager s)))" by metis
  have "list_all report_ok (reported s)" "reported s = notified (handled s) @ notified [x] @ notifications s"
    using handles.hyps(2) handles.prems(2) by (simp_all add: host_fifo_def)
  then have "list_all report_ok (notified [x])" by simp
  from event_keys_whole [OF ev(1) this] ev(2) handles.prems(3) show ?case by (simp add: host_whole_def)
next
  case (fails s x r m)
  have inv: "cm_inv (manager s)" "Suc (length (spawned (cm_tasks (manager s)))) < 2 ^ 64"
    using fails.hyps(1) fails.prems by (auto simp: host_keys_def)
  have x: "x \<noteq> Notify_Closed" using fails.hyps(2) fails.prems(2) by (simp add: host_fifo_def)
  from failing_event [OF inv fails.hyps(3,4) x] fails.prems(3) show ?case by (simp add: host_whole_def)
next
  case (works s req rnd r w)
  then show ?case
  proof (cases req)
    case (Received q)
    with works show ?thesis
      by (cases q; cases "pending s") (simp_all add: host_whole_def)
  qed (simp_all add: host_whole_def)
qed (auto simp: host_whole_def)

lemma host_step_handled: "host_step oc set_osk b act s s' \<Longrightarrow> length (handled s) \<le> length (handled s')"
  by (elim host_stepE) auto

lemma host_step_inv:
  assumes "host_step oc set_osk b act s s'" "host_inv set_osk b rnd w s" "length (handled s') < 2 ^ 64"
  shows "host_inv set_osk b rnd w s'"
  using assms host_step_fifo host_step_keys host_step_worker host_step_whole
  unfolding host_inv_def by metis

lemma host_start_inv: "is_key rnd \<Longrightarrow> host_inv set_osk b rnd w (host_start set_osk b rnd params etsi h interval w)"
  by (auto simp: host_inv_def host_start_def host_fifo_def host_keys_def host_worker_def host_whole_def
      outcome_end_def deadman_event_loop_def cm_inv_new split: prod.splits outcome.splits)

lemma host_run_inv:
  "host_run oc set_osk b acts s s' \<Longrightarrow> host_inv set_osk b rnd w s \<Longrightarrow> length (handled s') < 2 ^ 64 \<Longrightarrow>
   host_inv set_osk b rnd w s'"
proof (induction rule: host_run.induct)
  case (more acts s s' act s'')
  then show ?case using host_step_handled [OF more.hyps(2)] by (blast intro: host_step_inv le_less_trans)
qed

subsection \<open>Progress\<close>

lemma length_event_keys: "length (event_keys ev s) \<le> 1"
  by (auto simp: event_keys_def split: stream_event.splits)

lemma host_keysD:
  assumes "host_keys s" "manager_end s = None" "Suc (length (handled s)) < 2 ^ 64"
  shows "cm_inv (manager s)" and "Suc (length (spawned (cm_tasks (manager s)))) < 2 ^ 64"
  using assms by (auto simp: host_keys_def)

lemma internal_step_load:
  assumes "host_step oc set_osk b act s s'" "internal act" "host_keys s" "host_fifo s"
    and "Suc (length (handled s)) < 2 ^ 64"
  shows "host_load s' < host_load s"
  using assms
proof (induction rule: host_step.induct)
  case (handles s x m)
  note inv = host_keysD [OF handles.prems(2) handles.hyps(1) handles.prems(4)]
  from handled_event [OF inv handles.hyps(3)] obtain ev where "selected_event x = Ok ev"
    "queue (requests_of m) = queue (requests_of (manager s))
       @ map request_of (event_keys ev (abs_manager (manager s)))" by metis
  with handles.hyps(2) length_event_keys [of ev "abs_manager (manager s)"] show ?case
    by (simp add: host_load_def)
next
  case (fails s x r m)
  note inv = host_keysD [OF fails.prems(2) fails.hyps(1) fails.prems(4)]
  have x: "x \<noteq> Notify_Closed" using fails.hyps(2) fails.prems(3) by (simp add: host_fifo_def)
  from failing_event [OF inv fails.hyps(3,4) x] fails.hyps(2) show ?case by (simp add: host_load_def)
next
  case (works s req rnd r w)
  then show ?case by (cases req) (auto simp: host_load_def)
qed (auto simp: host_load_def)

lemma host_idle:
  assumes "host_load s = 0"
  shows "notifications s = []" and "in_hand s = None" and "pending s = []"
  using assms by (auto simp: host_load_def hand_list_def split: option.splits)

lemma idle_no_internal:
  assumes "host_load s = 0" "internal act"
  shows "\<not> host_step oc set_osk b act s s'"
proof
  assume "host_step oc set_osk b act s s'"
  moreover note host_idle [OF assms(1)]
  moreover have "\<exists>q. req = Received q" if "act = Works req" for req
    using assms(2) that by (cases req) auto
  ultimately show False using assms(2) by (auto elim!: host_stepE)
qed

lemma internalI:
  "host_step oc set_osk b act s s' \<Longrightarrow> internal act \<Longrightarrow>
   \<exists>act s'. internal act \<and> host_step oc set_osk b act s s'"
  by blast

lemma manager_progress:
  assumes "manager_end s = None" "in_hand s = Some x" "pending s = []" "host_keys s"
    and "Suc (length (handled s)) < 2 ^ 64"
  obtains act s' where "act = Handles \<or> act = Fails" "host_step oc set_osk b act s s'"
proof -
  obtain r m where m: "bind_st (selected_event x, manager s) (on_event oc (deadman_handler channel_send)) = (r, m)"
    by fastforce
  show thesis
  proof (cases "is_Ok r")
    case True
    then have "r = Ok ()" by (cases r) auto
    with m have m: "bind_st (selected_event x, manager s) (on_event oc (deadman_handler channel_send)) = (Ok (), m)"
      by simp
    from handled_event [OF host_keysD [OF assms(4,1,5)] m] assms(3) obtain ev where "selected_event x = Ok ev"
      "queue (requests_of m) = map request_of (event_keys ev (abs_manager (manager s)))" by (metis append_Nil)
    with length_event_keys [of ev "abs_manager (manager s)"]
    have "length (queue (requests_of m)) \<le> REQUEST_CAPACITY" by (simp add: REQUEST_CAPACITY_def)
    from that [OF _ host_step.handles [OF assms(1,2) m this]] show thesis by simp
  next
    case False
    from that [OF _ host_step.fails [OF assms(1,2) m this]] show thesis by simp
  qed
qed

lemma internal_progress:
  assumes "manager_end s = None" "worker_end s = None" "host_load s \<noteq> 0" "host_keys s"
    and "Suc (length (handled s)) < 2 ^ 64"
  shows "\<exists>act s'. internal act \<and> host_step oc set_osk b act s s'"
proof (cases "pending s")
  case (Cons q qs)
  then have "recv_ready (Received q) s" by simp
  moreover obtain r w where "deadman_iteration set_osk b key_new_zeroed (Received q) (worker_sink s) = (r, w)"
    by fastforce
  ultimately show ?thesis
    by (intro internalI [OF host_step.works [where req = "Received q", OF assms(2) _ is_key_new_zeroed]])
      simp_all
next
  case Nil
  show ?thesis
  proof (cases "in_hand s")
    case (Some x)
    obtain act s' where "act = Handles \<or> act = Fails" "host_step oc set_osk b act s s'"
      by (rule manager_progress [OF assms(1) Some Nil assms(4,5)])
    then show ?thesis by (intro internalI [of oc set_osk b act s s']) auto
  next
    case None
    with assms(3) Nil obtain ev evs where "notifications s = ev # evs"
      by (cases "notifications s") (auto simp: host_load_def)
    with assms(1) None show ?thesis by (intro internalI [OF host_step.takes]) simp_all
  qed
qed

lemma stuck_idle:
  assumes "host_keys s" "manager_end s = None" "worker_end s = None"
    and "\<nexists>act s'. internal act \<and> host_step oc set_osk b act s s'"
    and "host_load s \<noteq> 0 \<Longrightarrow> Suc (length (handled s)) < 2 ^ 64"
  shows "host_load s = 0"
proof (rule ccontr)
  assume "host_load s \<noteq> 0"
  from internal_progress [OF assms(2,3) this assms(1) assms(5) [OF this], of oc set_osk b] assms(4)
  show False by blast
qed

text \<open>
  While the worker's target takes every key and the listener has not failed, no
  internal step ends the manager or the worker.
\<close>

definition host_healthy :: "('h, 's, 'e, 'w) server_host \<Rightarrow> bool" where
  "host_healthy s \<longleftrightarrow> manager_end s = None \<and> worker_end s = None \<and> (\<forall>e. in_hand s \<noteq> Some (Accept_Failed e))"

context osk_sink
begin

lemma host_worker_ready:
  assumes "host_inv set_osk b rnd w s" "worker_end s = None" "ready b w" "is_key rnd"
  shows "ready b (worker_sink s)"
proof -
  have "deadman_event_loop set_osk b rnd (waited s) w = Running (worker_sink s)" "list_all wait_ok (waited s)"
    using assms(1,2) by (simp_all add: host_inv_def host_worker_def host_whole_def)
  then show ?thesis
    using deadman_loop_ready erase_replaces(2) [OF assms(3,4)]
    by (auto simp: deadman_event_loop_def split: prod.splits outcome.splits)
qed

lemma host_target:
  assumes "host_inv set_osk b rnd w s" "worker_end s = None" "ready b w" "is_key rnd"
    and "waited s = ws @ [(Received q, r)]"
  shows "installed b (worker_sink s) = Some (request_key (last (received (waited s))))"
proof -
  have "caught_up set_osk b (received (waited s)) w (worker_sink s)"
    using assms unfolding caught_up_def host_inv_def host_worker_def host_whole_def
    by (intro exI [of _ rnd] exI [of _ ws] exI [of _ q] exI [of _ r]) simp
  from caught_up_installs(2) [OF this assms(3)] show ?thesis .
qed

lemma host_target_last:
  assumes "host_inv set_osk b rnd w s" "manager_end s = None" "worker_end s = None" "pending s = []"
    and "ready b w" "is_key rnd" "waited s = ws @ [(Received q, r)]"
  shows "installed b (worker_sink s) = Some (fst (last (accepted_keys (handled s) spec_start)))"
proof -
  have rec: "received (waited s) = map request_of (accepted_keys (handled s) spec_start)"
    using assms(1,2,4) by (simp add: host_inv_def host_keys_def)
  moreover have "accepted_keys (handled s) spec_start \<noteq> []" using rec assms(7) by (auto simp: received_append)
  ultimately show ?thesis using host_target [OF assms(1,3,5-7)] by (simp add: last_map request_of_def)
qed

end

context reliable_sink
begin

lemma internal_step_healthy:
  assumes "host_step oc set_osk b act s s'" "internal act" "host_inv set_osk b rnd w s" "host_healthy s"
    and "Suc (length (handled s)) < 2 ^ 64" "ready b w" "is_key rnd"
  shows "host_healthy s' \<and> host_agenda s' = host_agenda s \<and> length (handled s') \<le> Suc (length (handled s))
     \<and> (waited s' = waited s \<or> (\<exists>ws q r. waited s' = ws @ [(Received q, r)]))"
  using assms
proof (induction rule: host_step.induct)
  case (fails s x r m)
  have keys: "host_keys s" and x: "x \<noteq> Notify_Closed"
    using fails.hyps(2) fails.prems(2) by (auto simp: host_inv_def host_fifo_def)
  have "rx_alive (requests_of (manager s))" using keys fails.prems(3) by (simp add: host_keys_def host_healthy_def)
  with failing_event [OF host_keysD [OF keys fails.hyps(1) fails.prems(4)] fails.hyps(3,4) x]
    fails.hyps(2) fails.prems(3) show ?case by (auto simp: host_healthy_def)
next
  case (works s req rnd' r w')
  have rdy: "ready b (worker_sink s)"
    by (rule host_worker_ready [OF works.prems(2) works.hyps(1) works.prems(5,6)])
  obtain k rs where req: "req = Received (SetOsk k rs)"
    using works.prems(1) by (cases req) (auto intro: deadman_request.exhaust)
  have "is_key k" using works.hyps(2) works.prems(2) req
    by (cases "pending s") (auto simp: host_inv_def host_whole_def)
  from set_runs [OF rdy this] obtain w1 where "set_osk b k rs (worker_sink s) = (Ok (), w1)" by blast
  with works.hyps(4) req have "r = Ok True" by (auto simp: deadman_iteration_def)
  with works.prems(3) req show ?case by (simp add: host_healthy_def iteration_end_def host_agenda_def)
qed (auto simp: host_healthy_def host_agenda_def)

lemma internal_run:
  assumes "host_run oc set_osk b acts s s'" "list_all internal acts" "host_inv set_osk b rnd w s" "host_healthy s"
    and "length (handled s) + host_load s < 2 ^ 64" "ready b w" "is_key rnd"
  shows "host_inv set_osk b rnd w s' \<and> host_healthy s' \<and> host_agenda s' = host_agenda s
     \<and> (waited s' = waited s \<or> (\<exists>ws q r. waited s' = ws @ [(Received q, r)]))
     \<and> length acts + host_load s' \<le> host_load s
     \<and> length (handled s') + host_load s' \<le> length (handled s) + host_load s"
  using assms
proof (induction rule: host_run.induct)
  case (more acts s s' act s'')
  then have ih: "host_inv set_osk b rnd w s'" "host_healthy s'" "host_agenda s' = host_agenda s"
    "waited s' = waited s \<or> (\<exists>ws q r. waited s' = ws @ [(Received q, r)])"
    "length acts + host_load s' \<le> host_load s"
    "length (handled s') + host_load s' \<le> length (handled s) + host_load s" and act: "internal act" by auto
  have inv: "host_keys s'" "host_fifo s'" using ih(1) by (simp_all add: host_inv_def)
  show ?case
  proof (cases "host_load s' = 0")
    case True
    show ?thesis using idle_no_internal [OF True act, of oc set_osk b s''] more.hyps(2) by blast
  next
    case False
    then have small: "Suc (length (handled s')) < 2 ^ 64" using ih(6) more.prems(4) by simp
    note load = internal_step_load [OF more.hyps(2) act inv small]
    note healthy = internal_step_healthy [OF more.hyps(2) act ih(1,2) small more.prems(5,6)]
    have "host_inv set_osk b rnd w s''"
      using host_step_inv [OF more.hyps(2) ih(1)] healthy small by simp
    moreover have "waited s'' = waited s \<or> (\<exists>ws q r. waited s'' = ws @ [(Received q, r)])"
      using healthy ih(4) by auto
    ultimately show ?thesis using healthy load ih by auto
  qed
qed simp

lemma internal_drains:
  assumes "host_inv set_osk b rnd w s" "host_healthy s" "length (handled s) + host_load s < 2 ^ 64"
    "ready b w" "is_key rnd"
  shows "\<exists>acts s'. host_run oc set_osk b acts s s' \<and> list_all internal acts \<and> host_load s' = 0"
proof -
  have "\<exists>acts s'. host_run oc set_osk b acts s s' \<and> list_all internal acts \<and> host_load s' \<le> host_load s - n" for n
  proof (induction n)
    case 0
    show ?case by (intro exI [of _ "[]"] exI [of _ s]) (simp add: host_run.none)
  next
    case (Suc n)
    then obtain acts s' where run: "host_run oc set_osk b acts s s'" "list_all internal acts"
      and load: "host_load s' \<le> host_load s - n" by blast
    note r = internal_run [OF run assms]
    show ?case
    proof (cases "host_load s' = 0")
      case False
      have small: "Suc (length (handled s')) < 2 ^ 64" using r False assms(3) by linarith
      have inv: "host_keys s'" "host_fifo s'" using r by (simp_all add: host_inv_def)
      obtain act s'' where step: "internal act" "host_step oc set_osk b act s' s''"
        using internal_progress [OF _ _ False inv(1) small, of oc set_osk b] r by (auto simp: host_healthy_def)
      from internal_step_load [OF step(2,1) inv small] load
      have "host_load s'' \<le> host_load s - Suc n" by linarith
      with step run show ?thesis
        by (intro exI [of _ "acts @ [act]"] exI [of _ s'']) (auto intro: host_run.more)
    qed (use run in \<open>intro exI [of _ acts] exI [of _ s'], simp\<close>)
  qed
  from this [of "host_load s"] show ?thesis by simp
qed

end

lemma budding_live: "cm_inv m \<Longrightarrow> spec_budding (abs_manager m) \<subseteq> live_tasks m"
  by (auto simp: live_tasks_held dom_held abs_manager_def)

text \<open>What the task of a connection sends are reports of the step relation.\<close>

lemma init_task_report_ok:
  assumes "init_task channel_send C f i nonces w = res" "rx_alive (osk_of w)" "queue (osk_of w) = []"
    and "shake256 (shake C)"
  shows "list_all (\<lambda>ev. report_ok ev \<and> event_connection ev = i) (queue (osk_of (loop_world res)))"
  using events.init_task_reports [OF assms(1,2)] assms(3) shake256.derive_is_key [OF assms(4)]
  by (auto simp: list_all_iff fresh_key_event_def split: loop_state.splits outcome.splits)

text \<open>A host that has accepted a connection and has its first key in hand.\<close>

lemma first_key_in_hand:
  fixes etsi :: "'e etsi014_connection" and h :: 'h and w :: 'w and a :: "'s accept_event"
  assumes "is_key rnd" "is_key k"
  shows "\<exists>acts s. host_run oc set_osk b acts (host_start set_osk b rnd params etsi h interval w) s
     \<and> handled s = [Accepted a] \<and> in_hand s = Some (Notified (fresh_key_event 0 k)) \<and> notifications s = []
     \<and> pending s = [] \<and> waited s = [] \<and> reported s = [fresh_key_event 0 k] \<and> manager_end s = None
     \<and> worker_end s = outcome_end (fst (erase_stale_osk set_osk rnd b w))"
proof -
  let ?s0 = "host_start set_osk b rnd params etsi h interval w :: ('h, 's, 'e, 'w) server_host"
  let ?m0 = "manager ?s0" and ?step = "host_step oc set_osk b" and ?run = "host_run oc set_osk b"
  have s0: "in_hand ?s0 = None" "notifications ?s0 = []" "manager_end ?s0 = None" "handled ?s0 = []"
    "reported ?s0 = []" "waited ?s0 = []" "worker_end ?s0 = outcome_end (fst (erase_stale_osk set_osk rnd b w))"
    "pending ?s0 = []" "cm_inv ?m0" "spawned (cm_tasks ?m0) = []" "abs_manager ?m0 = spec_start"
    by (simp_all add: host_start_def cm_inv_new split: prod.splits)
  obtain r m where "on_event oc (deadman_handler channel_send) (Accept a) ?m0 = (r, m)" by fastforce
  moreover from on_event_refines [OF s0(9) _ this] s0(10) have "r = Ok ()" by simp
  ultimately have on: "bind_st (selected_event (Accepted a), ?m0) (on_event oc (deadman_handler channel_send))
      = (Ok (), m)" by simp
  from handled_event [OF s0(9) _ on] s0(8,10,11)
  have m: "cm_inv m" "abs_manager m = spec_accept spec_start" "queue (requests_of m) = []" by auto
  have "0 \<in> live_tasks m" using budding_live [OF m(1)] by (simp add: m(2) spec_accept_def spec_start_def)
  let ?s1 = "?s0\<lparr>in_hand := Some (Accepted a)\<rparr>"
  let ?s2 = "?s1\<lparr>manager := m, in_hand := None, handled := handled ?s1 @ [Accepted a]\<rparr>"
  let ?s3 = "?s2\<lparr>notifications := notifications ?s2 @ [fresh_key_event 0 k],
      reported := reported ?s2 @ [fresh_key_event 0 k]\<rparr>"
  let ?s4 = "?s3\<lparr>notifications := [], in_hand := Some (Notified (fresh_key_event 0 k))\<rparr>"
  have steps: "?step Accepts ?s0 ?s1" "?step Handles ?s1 ?s2" "?step Reports ?s2 ?s3" "?step Takes ?s3 ?s4"
  proof -
    show "?step Accepts ?s0 ?s1" by (rule host_step.accepts) (simp_all add: s0)
    show "?step Handles ?s1 ?s2" by (rule host_step.handles) (use on in \<open>simp_all add: s0 m\<close>)
    show "?step Reports ?s2 ?s3"
      by (rule host_step.reports)
        (simp_all add: s0 \<open>0 \<in> live_tasks m\<close> fresh_key_event_def assms NOTIFICATION_CAPACITY_def)
    show "?step Takes ?s3 ?s4" by (rule host_step.takes) (simp_all add: s0)
  qed
  from host_run.more [OF host_run.more [OF host_run.more [OF host_run.more [OF host_run.none steps(1)]
        steps(2)] steps(3)] steps(4)]
  show ?thesis by (intro exI conjI) (assumption, simp_all add: s0 m)
qed

abbreviation out_start :: "(unit, unit, unit, outfile_world) server_host" where
  "out_start \<equiv> host_start (outfile_set_osk rfc4648) out_handler key_new_zeroed example_params
     down_connection () 120 example_out_world"

lemma accepted_keys_first: "accepted_keys [Accepted a, Notified (fresh_key_event 0 k)] spec_start = [(k, Fresh)]"
  by (simp add: spec_osk_def spec_accept_def spec_start_def)

text \<open>The same host with its key in the output file, and the way in between.\<close>

lemma first_key_settled:
  assumes "is_key k"
  shows "\<exists>acts0 s acts s'. host_run True (outfile_set_osk rfc4648) out_handler acts0 out_start s
     \<and> handled s = [Accepted a] \<and> in_hand s = Some (Notified (fresh_key_event 0 k)) \<and> notifications s = []
     \<and> waited s = [] \<and> host_healthy s \<and> host_load s = 2
     \<and> host_run True (outfile_set_osk rfc4648) out_handler acts s s' \<and> list_all internal acts
     \<and> host_load s' = 0 \<and> host_healthy s' \<and> handled s' = [Accepted a, Notified (fresh_key_event 0 k)]
     \<and> (\<exists>ws q r. waited s' = ws @ [(Received q, r)])"
proof -
  let ?set = "outfile_set_osk rfc4648"
  obtain acts0 s where run: "host_run True ?set out_handler acts0 out_start s"
    and s: "handled s = [Accepted a]" "in_hand s = Some (Notified (fresh_key_event 0 k))" "notifications s = []"
      "pending s = []" "waited s = []" "manager_end s = None"
      "worker_end s = outcome_end (fst (erase_stale_osk ?set key_new_zeroed out_handler example_out_world))"
    using first_key_in_hand [OF is_key_new_zeroed assms] by fastforce
  obtain w1 where "?set out_handler key_new_zeroed Stale example_out_world = (Ok (), w1)"
    by (rule out_rfc.set_runs [of out_handler example_out_world key_new_zeroed Stale]) simp_all
  with s have up: "host_healthy s" "host_load s = 2"
    by (simp_all add: erase_stale_osk_def outcome_end_def host_healthy_def host_load_def)
  have inv: "host_inv ?set out_handler key_new_zeroed example_out_world s"
    by (rule host_run_inv [OF run host_start_inv]) (simp_all add: s)
  have small: "length (handled s) + host_load s < 2 ^ 64" by (simp add: s up)
  from out_rfc.internal_drains [OF inv up(1) small] obtain acts s' where
    drain: "host_run True ?set out_handler acts s s'" "list_all internal acts" "host_load s' = 0"
    by fastforce
  note r = out_rfc.internal_run [OF drain(1,2) inv up(1) small example_out_writable is_key_new_zeroed]
  note idle = host_idle [OF drain(3)]
  from idle r have h: "handled s' = [Accepted a, Notified (fresh_key_event 0 k)]"
    by (simp add: host_agenda_def s)
  moreover have "waited s' \<noteq> []"
  proof
    assume "waited s' = []"
    with r idle(3) h have "accepted_keys [Accepted a, Notified (fresh_key_event 0 k)] spec_start = []"
      by (auto simp: host_inv_def host_keys_def host_healthy_def simp del: accepted_keys.simps)
    then show False unfolding accepted_keys_first by simp
  qed
  ultimately show ?thesis using run s up drain r
    by (intro exI [of _ acts0] exI [of _ s] exI [of _ acts] exI [of _ s']) simp
qed

section \<open>Properties\<close>

text \<open>
  C5: order and bounds on the server's host. In every state that any interleaving of
  listener, connection tasks, manager and worker reaches, no channel holds more than
  its capacity; the manager has taken the reports of the tasks in the order in which
  they were made and none is lost; while the manager runs, the requests that the
  worker has received and those still pending are exactly the keys accepted by the
  specification of the manager, in order, and after its end nothing but a beginning
  of them; and the worker is where its loop is after the waits it has made.
\<close>

theorem host_delivers_in_order:
  assumes "is_key rnd" and "length (handled s) < 2 ^ 64"
    and "host_run overflow_checks set_osk b acts (host_start set_osk b rnd params etsi h interval w) s"
  shows "length (notifications s) \<le> 16 \<and> length (pending s) \<le> 8
    \<and> notified (handled s @ hand_list (in_hand s)) @ notifications s = reported s
    \<and> prefix (received (waited s) @ pending s) (map request_of (accepted_keys (handled s) spec_start))
    \<and> (manager_end s = None \<longrightarrow>
         received (waited s) @ pending s = map request_of (accepted_keys (handled s) spec_start))
    \<and> deadman_event_loop set_osk b rnd (waited s) w
        = (case worker_end s of None \<Rightarrow> Running (worker_sink s) | Some r \<Rightarrow> Returned r (worker_sink s))"
proof -
  have "host_inv set_osk b rnd w s" by (rule host_run_inv [OF assms(3) host_start_inv [OF assms(1)] assms(2)])
  then show ?thesis
    by (auto simp: host_inv_def host_fifo_def host_keys_def host_worker_def NOTIFICATION_CAPACITY_def
        REQUEST_CAPACITY_def split: option.splits)
qed

theorem host_delivers_in_order_witness:
  "\<exists>acts s. host_run True (outfile_set_osk rfc4648) out_handler acts out_start s
     \<and> notified (handled s @ hand_list (in_hand s)) = [fresh_key_event 0 (replicate 32 7)]
     \<and> notified (handled s @ hand_list (in_hand s)) @ notifications s = reported s
     \<and> in_hand s \<noteq> None \<and> length (pending s) \<le> 8
     \<and> deadman_event_loop (outfile_set_osk rfc4648) out_handler key_new_zeroed (waited s) example_out_world
         = Running (worker_sink s)"
proof -
  obtain acts s where run: "host_run True (outfile_set_osk rfc4648) out_handler acts out_start s"
    and s: "handled s = [Accepted \<lparr>accept_stream = (), accept_addr = ''peer''\<rparr>]"
      "in_hand s = Some (Notified (fresh_key_event 0 (replicate 32 7)))" "notifications s = []"
      "reported s = [fresh_key_event 0 (replicate 32 7)]"
      "worker_end s = outcome_end (fst (erase_stale_osk (outfile_set_osk rfc4648) key_new_zeroed out_handler example_out_world))"
    using first_key_in_hand [of key_new_zeroed "replicate 32 7"] by fastforce
  obtain w1 where "outfile_set_osk rfc4648 out_handler key_new_zeroed Stale example_out_world = (Ok (), w1)"
    by (rule out_rfc.set_runs [of out_handler example_out_world key_new_zeroed Stale]) simp_all
  with s(5) have "worker_end s = None" by (simp add: erase_stale_osk_def outcome_end_def)
  with host_delivers_in_order [OF is_key_new_zeroed _ run] run s show ?thesis
    by (intro exI [of _ acts] exI [of _ s]) simp
qed

text \<open>
  C6: the host never gets stuck and settles. From every state reached so far in
  which manager and worker run and the listener has not failed, with a target that
  takes every key: whatever the order in which manager and worker go on, they do so
  for at most \<open>host_load\<close> steps, a bound on the work in the channels, and when
  neither can go on, both still run, every event taken or reported has been handled
  in order, every accepted key has been requested from the target in order, and, if
  the worker had any request to handle, the target holds the key accepted last.
\<close>

theorem host_drains:
  assumes "reliable_sink set_osk inst rdy" and "rdy b w" and "is_key rnd"
    and "host_run overflow_checks set_osk b acts0 (host_start set_osk b rnd params etsi h interval w) s"
    and "host_healthy s" and "length (handled s) + host_load s < 2 ^ 64"
    and "host_run overflow_checks set_osk b acts s s'" and "list_all internal acts"
  shows "length acts \<le> host_load s
    \<and> ((\<nexists>act s''. internal act \<and> host_step overflow_checks set_osk b act s' s'') \<longrightarrow>
         host_healthy s' \<and> handled s' = handled s @ hand_list (in_hand s) @ map Notified (notifications s)
         \<and> received (waited s') = map request_of (accepted_keys (handled s') spec_start)
         \<and> (waited s' \<noteq> waited s \<longrightarrow>
              inst b (worker_sink s') = Some (fst (last (accepted_keys (handled s') spec_start)))))"
proof -
  have "length (handled s) < 2 ^ 64" using assms(6) by simp
  from host_run_inv [OF assms(4) host_start_inv [OF assms(3)] this] have "host_inv set_osk b rnd w s" .
  note run = reliable_sink.internal_run [OF assms(1,7,8) this assms(5,6,2,3)]
  have sink: "osk_sink set_osk inst rdy" by (rule reliable_sink.axioms(1) [OF assms(1)])
  have up: "host_keys s'" "manager_end s' = None" "worker_end s' = None"
    and inv: "host_inv set_osk b rnd w s'" using run by (auto simp: host_inv_def host_healthy_def)
  show ?thesis
  proof (intro conjI impI)
    assume "\<nexists>act s''. internal act \<and> host_step overflow_checks set_osk b act s' s''"
    then have "host_load s' = 0"
      by (rule stuck_idle [OF up]) (use run assms(6) in linarith)
    note idle = host_idle [OF this]
    show "handled s' = handled s @ hand_list (in_hand s) @ map Notified (notifications s)"
      using run idle by (simp add: host_agenda_def)
    show "received (waited s') = map request_of (accepted_keys (handled s') spec_start)"
      using up idle(3) by (simp add: host_keys_def)
    assume "waited s' \<noteq> waited s"
    then obtain ws q r where "waited s' = ws @ [(Received q, r)]" using run by auto
    then show "inst b (worker_sink s') = Some (fst (last (accepted_keys (handled s') spec_start)))"
      by (rule osk_sink.host_target_last [OF sink inv up(2,3) idle(3) assms(2,3)])
  qed (use run in auto)
qed

theorem host_drains_witness:
  "\<exists>acts0 s acts s'. host_run True (outfile_set_osk rfc4648) out_handler acts0 out_start s
     \<and> host_healthy s \<and> host_load s = 2
     \<and> host_run True (outfile_set_osk rfc4648) out_handler acts s s' \<and> list_all internal acts
     \<and> length acts \<le> 2 \<and> host_healthy s'
     \<and> received (waited s') = [SetOsk (replicate 32 7) Fresh]
     \<and> outfile_installed rfc4648 out_handler (worker_sink s') = Some (replicate 32 7)"
proof -
  let ?k = "replicate 32 7 :: key" and ?set = "outfile_set_osk rfc4648"
  obtain acts0 s acts s' where run: "host_run True ?set out_handler acts0 out_start s"
    and s: "handled s = [Accepted \<lparr>accept_stream = (), accept_addr = ''peer''\<rparr>]"
      "in_hand s = Some (Notified (fresh_key_event 0 ?k))" "notifications s = []" "waited s = []"
      "host_healthy s" "host_load s = 2"
    and drain: "host_run True ?set out_handler acts s s'" "list_all internal acts" "host_load s' = 0"
    and w: "\<exists>ws q r. waited s' = ws @ [(Received q, r)]"
    using first_key_settled [of ?k] by fastforce
  have "\<nexists>act s''. internal act \<and> host_step True ?set out_handler act s' s''"
    using idle_no_internal [OF drain(3), of _ True ?set out_handler] by blast
  moreover have "length (handled s) + host_load s < 2 ^ 64" by (simp add: s)
  ultimately show ?thesis
    using host_drains [OF out_rfc.reliable_sink_axioms example_out_writable is_key_new_zeroed run s(5) _ drain(1,2)]
      run drain(1,2) w s
    by (intro exI [of _ acts0] exI [of _ s] exI [of _ acts] exI [of _ s'])
      (auto simp: request_of_def accepted_keys_first simp del: accepted_keys.simps)
qed

text \<open>
  C20: a dead worker is noticed at the next key. When the worker's loop has ended and
  the manager has in hand a key that it would accept, handling it ends the
  manager's loop with the error of the closed channel and aborts the tasks of all
  connections, so that no further key is negotiated that nobody would install; the
  target is not touched any more.
\<close>

theorem host_stops_on_dead_worker:
  assumes "is_key rnd" and "Suc (length (handled s)) < 2 ^ 64"
    and "host_run overflow_checks set_osk b acts (host_start set_osk b rnd params etsi h interval w) s"
    and "worker_end s \<noteq> None" and "in_hand s = Some (Notified (Handler_Osk e))"
    and "fst (spec_osk (unat (osk_connection_id e)) (spec_run (handled s) spec_start))"
    and "host_step overflow_checks set_osk b act s s'" and "act = Handles \<or> act = Fails"
  shows "act = Fails \<and> manager_end s' = Some (Err SendError) \<and> live_tasks (manager s') = {}
    \<and> worker_sink s' = worker_sink s"
proof -
  have "length (handled s) < 2 ^ 64" using assms(2) by simp
  from host_run_inv [OF assms(3) host_start_inv [OF assms(1)] this] have keys: "host_keys s"
    by (simp add: host_inv_def)
  have up: "manager_end s = None" using assms(7,8) by (auto elim: host_stepE)
  obtain r m where on: "on_event overflow_checks (deadman_handler channel_send) (Osk e) (manager s) = (r, m)"
    by fastforce
  note ref = on_event_refines [OF host_keysD [OF keys up assms(2)] on]
  have dead: "\<not> rx_alive (requests_of (manager s))"
    and abs: "abs_manager (manager s) = spec_run (handled s) spec_start"
    using keys up assms(4) by (auto simp: host_keys_def)
  then have "r = Err SendError" "cm_inv m"
    using ref assms(6) dead by (auto simp: deadman_handler_dead)
  then show ?thesis using assms(5,7,8) on dropped_manager_empty [of m] by (auto elim!: host_stepE)
qed

text \<open>A host whose WireGuard interface is gone.\<close>

abbreviation lost_start :: "(unit, unit, unit, ref_kernel wg_world) server_host" where
  "lost_start \<equiv> host_start (wireguard_set_osk ref_wg) (example_wg_handler (replicate 32 2)) key_new_zeroed
     example_params down_connection () 120 (example_wg_world\<lparr>wg_kernel := Map.empty\<rparr>)"

theorem host_stops_on_dead_worker_witness:
  "\<exists>acts s s'. host_run True (wireguard_set_osk ref_wg) (example_wg_handler (replicate 32 2)) acts lost_start s
     \<and> worker_end s \<noteq> None \<and> manager_end s = None
     \<and> host_step True (wireguard_set_osk ref_wg) (example_wg_handler (replicate 32 2)) Fails s s'
     \<and> manager_end s' = Some (Err SendError) \<and> live_tasks (manager s') = {}"
proof -
  let ?set = "wireguard_set_osk ref_wg" and ?b = "example_wg_handler (replicate 32 2)"
  let ?w = "example_wg_world\<lparr>wg_kernel := Map.empty\<rparr>" and ?k = "replicate 32 7 :: key"
  obtain acts s where run: "host_run True ?set ?b acts lost_start s"
    and s: "handled s = [Accepted \<lparr>accept_stream = (), accept_addr = ''peer''\<rparr>]"
      "in_hand s = Some (Notified (fresh_key_event 0 ?k))" "manager_end s = None"
      "worker_end s = outcome_end (fst (erase_stale_osk ?set key_new_zeroed ?b ?w))" "pending s = []"
    using first_key_in_hand [of key_new_zeroed ?k] by fastforce
  have dead: "worker_end s \<noteq> None"
    by (simp add: s(4) erase_stale_osk_def wireguard_set_osk_eq ref_wg_def example_wg_world_def outcome_end_def)
  let ?e = "\<lparr>osk_connection_id = 0, osk_event_key = ?k, osk_event_reason = Fresh\<rparr>"
  have acc: "fst (spec_osk (unat (osk_connection_id ?e)) (spec_run (handled s) spec_start))"
    by (simp add: s(1) spec_osk_def spec_accept_def spec_start_def)
  have "host_inv ?set ?b key_new_zeroed ?w s"
    by (rule host_run_inv [OF run host_start_inv]) (simp_all add: s)
  then have keys: "host_keys s" by (simp add: host_inv_def)
  obtain act s' where step: "act = Handles \<or> act = Fails" "host_step True ?set ?b act s s'"
    by (rule manager_progress [OF s(3,2,5) keys]) (simp add: s)
  from host_stops_on_dead_worker [OF is_key_new_zeroed _ run dead _ acc step(2,1)] s(1-3) dead run step(2)
  show ?thesis by (intro exI [of _ acts] exI [of _ s] exI [of _ s']) (auto simp: fresh_key_event_def)
qed

end
