(* ===== verification/Spec2Isabelle.thy ===== *)
theory Spec2Isabelle
  imports Cli Simulator Host
begin

text \<open>
  A verification library for Daisyway, a daemon that turns keys of a quantum key
  distribution (QKD) link into pre-shared keys of a WireGuard tunnel, and for the
  key server simulator that is shipped with it (the crates under \<open>src/daisyway\<close>
  and \<open>src/simulator\<close>).

  \<^bold>\<open>The program.\<close> Two daemons, one per end of the tunnel, hold a TCP connection.
  One of them is the server: it fetches a fresh key from its ETSI GS QKD 014 key
  server, sends the key's identifier with a random nonce to the client, waits for
  an acknowledgement, and derives the output key from the QKD key, the nonce, the
  pre-shared key and the two WireGuard public keys. The client fetches the same
  QKD key by its identifier and derives the same output key. Both hand it to an
  output key handler (a file or a WireGuard interface) behind a deadman switch
  that overwrites the key with a random one when no new key arrives in time. The
  server accepts many connections and uses the newest one that delivers keys.

  \<^bold>\<open>The theories\<close>, with the files under \<open>src/daisyway/src/internal\<close> they model:

    \<^item> \<open>Prelude\<close>: machine integers, errors, outcomes of calls (a value, an error, a
      panic), state-threading sequencing, byte strings. No source file.
    \<^item> \<open>Base64ct\<close>, \<open>Uuid\<close>, \<open>Shake256\<close>, \<open>Mpsc\<close>, \<open>BTree_Map\<close>: the library
      code the program calls, each as a locale of the laws the program relies on
      and an interpretation on a reference implementation (RFC 4648, RFC 9562,
      FIPS 202, a queue, a sorted association list).
    \<^item> \<open>Util\<close>: \<open>util.rs\<close>. The locale \<open>reader\<close> is the contract of
      \<open>std::io::Read\<close>, interpreted on files whose reads may be interrupted and
      cut short.
    \<^item> \<open>Hash_Domain\<close>: \<open>daisyway/crypto/hash_domain.rs\<close>.
    \<^item> \<open>Crypto_Basics\<close>: \<open>daisyway/crypto/basics.rs\<close>: key derivation and messages.
    \<^item> \<open>Etsi014\<close>: \<open>etsi014.rs\<close>: TLS set-up, requests, checks of the responses.
    \<^item> \<open>Osk\<close>: \<open>osk/mod.rs\<close>, \<open>osk/outfile.rs\<close>, \<open>osk/wireguard.rs\<close>. The locale
      \<open>osk_sink\<close> is the contract of an output key handler; both handlers are
      instances of it. \<open>reliable_sink\<close> extends it by success, as the file handler
      has it while its file can be written.
    \<^item> \<open>Deadman\<close>: \<open>osk/deadman.rs\<close>, as a loop over the results of its waits and as
      a transition system with a clock; a deadline at or beyond \<open>INSTANT_LIMIT\<close>, the
      seconds that an \<open>Instant\<close> can hold, panics the worker as in the code.
    \<^item> \<open>Deadman_Timing\<close>: the same worker under requests that arrive at given times.
    \<^item> \<open>Protocol\<close>: \<open>daisyway/crypto/server.rs\<close> and \<open>client.rs\<close>.
    \<^item> \<open>Session\<close>: no file of its own; the two sides of \<open>Protocol\<close> run against
      each other over one connection, as an inductive step relation. The locale
      \<open>qkd_link\<close> is what the two key servers promise. Two lemmas relate the steps to
      whole rounds of the event loops of \<open>Protocol\<close>.
    \<^item> \<open>Fanout\<close>: \<open>daisyway/net/tcp_server/events.rs\<close>, \<open>fanout_osk_handler.rs\<close>,
      \<open>fanout_connection_handler.rs\<close>, \<open>abort_on_drop_handle.rs\<close>.
    \<^item> \<open>Connection_Manager\<close>: \<open>daisyway/net/tcp_server/connection_manager.rs\<close>, with
      its specification on connection numbers.
    \<^item> \<open>Tcp\<close>: \<open>daisyway/net/tcp_server/mod.rs\<close>, \<open>tcp_client.rs\<close>,
      \<open>tcp_participant.rs\<close>.
    \<^item> \<open>Setup\<close>: \<open>daisyway/setup.rs\<close>.
    \<^item> \<open>Cli\<close>: \<open>src/daisyway/src/main.rs\<close>.
    \<^item> \<open>Pipeline\<close>: no file of its own; the way of a key from a connection through
      the connection manager, the handle and the worker of the deadman switch to its
      target, and which keys are accepted when connections overlap.
    \<^item> \<open>Host\<close>: no file of its own; the connection tasks, the manager and the worker
      of a server run side by side as a labelled step relation, connected by the
      bounded channels of \<open>connection_manager.rs\<close> and \<open>deadman.rs\<close>.
    \<^item> \<open>Simulator\<close>: \<open>src/simulator/src/main.rs\<close>, with the simulator as a
      \<open>qkd_link\<close> of the daemon's own client over any HTTP transport that meets the
      laws of the locale \<open>sim_transport\<close>.
    \<^item> this theory: the properties that span components.

  \<^bold>\<open>How the code is rendered.\<close> A struct is a \<open>record\<close>, an enum a \<open>datatype\<close>, a
  method a definition of (nearly) the same name that takes the environment it acts
  on and returns it changed. \<open>?\<close> is \<open>bind_outcome\<close> or \<open>bind_st\<close>,
  \<open>context\<close> is \<open>context_outcome\<close>, \<open>unwrap\<close>, \<open>expect\<close>, \<open>assert!\<close> and index
  errors are the constructor \<open>Panic\<close>. Integers that can overflow are words of
  their width; where Rust checks overflow depending on the build, the definition
  takes the flag \<open>overflow_checks\<close>. Random values are arguments. Crates are
  arguments too, collected in records of the functions the program calls; what is
  assumed of them are the laws of the locales above. Logging is left out, except
  for the choice of its level.

  \<^bold>\<open>Loops.\<close> The service loops of the program do not end by themselves. Each is a
  function on the list of what its rounds meet (nonces drawn, events selected,
  attempts to connect, results of a wait), which gives \<open>Returned\<close> with the result
  of the loop or \<open>Running\<close> with the state after those rounds; since the list is
  arbitrary, a statement on all lists is one on all finite runs. The read loop of
  \<open>Util\<close> is a \<open>partial_function\<close> over an endless sequence of what happens to the
  reads; it is proved to return unless the reads are interrupted for ever, and not to
  return when all of them are. In \<open>Host\<close> the steps that need nothing from outside are shown to be bounded in
  number and to leave nothing undone. Event
  lists of the connection manager are bounded by \<open>2 ^ 64\<close>, the number of
  connection identifiers; within it no identifier is used twice.

  \<^bold>\<open>What is shown.\<close> Key agreement of the two sides in every interleaving, with
  connections that break anywhere (\<open>Session\<close> and below), the delivery of an
  accepted key through connection manager and deadman switch to its target
  (\<open>Pipeline\<close>) under any scheduling, without loss, reordering or deadlock
  (\<open>Host\<close>), both together as the agreement of the two hosts' targets over
  reconnects and overlapping connections (below), the manager's refinement of its
  specification with its bounds and its order of keys, the lifetime of keys and that
  rekeying in time keeps them in place, the binding of all inputs by the derived key, the
  round trips of key files, success conditions and error paths of
  every component, and the simulator as a key server that serves both ends the same
  key.

  \<^bold>\<open>Not modelled\<close>: code outside the repository (crates, kernel, operating system)
  beyond the laws assumed of it; the decoding of TOML and of the command line, which
  derive macros generate; log messages and debug formatting; the scheduling of tasks
  other than by the order of events and steps, and fairness of the scheduler; the
  module declarations, the build script, the packaging and the NixOS test. Timers are
  taken to fire on time, and calls of an output key handler to take no time. The steps
  of \<open>Host\<close> have no clock: there a deadline may pass, or overflow, at any time.
\<close>

section \<open>Keys of a session\<close>

text \<open>
  Two sides that use the simulator as their key server, over the RFC 4648 and UUID
  codecs and SHAKE256, and write their keys to files.
\<close>

definition sim_crates :: "mem_stream crates" where
  "sim_crates = \<lparr>b64 = rfc4648, uuids = std_uuid, shake = fips202_shake256, io = mem_io\<rparr>"

definition sim_server :: "'h \<Rightarrow> ('h, u64) daisyway_server_protocol" where
  "sim_server h = daisyway_server_protocol_new
     \<lparr>psk = replicate 32 9, local_peer_id = replicate 32 1, remote_peer_id = replicate 32 2\<rparr>
     (sim_connection rfc4648 std_uuid plain_json ''http://kme-a'' ''SAE_B'') h 120"

definition sim_client :: "'h \<Rightarrow> ('h, u64) daisyway_client_protocol" where
  "sim_client h = daisyway_client_protocol_new
     \<lparr>psk = replicate 32 9, local_peer_id = replicate 32 2, remote_peer_id = replicate 32 1\<rparr>
     (sim_connection rfc4648 std_uuid plain_json ''http://kme-b'' ''SAE_A'') h"

lemma sim_side_fields [simp]:
  "srv_osk_handler (sim_server h) = h" "cl_osk_handler (sim_client g) = g"
  "srv_etsi_client (sim_server h) = sim_connection rfc4648 std_uuid plain_json ''http://kme-a'' ''SAE_B''"
  "cl_etsi_client (sim_client g) = sim_connection rfc4648 std_uuid plain_json ''http://kme-b'' ''SAE_A''"
  by (simp_all add: sim_server_def sim_client_def daisyway_server_protocol_new_def
      daisyway_client_protocol_new_def)

interpretation sim_session: session_parties sim_crates "sim_server h" "sim_client g" "\<lambda>c c'. True" sim_holds
  for h g
proof (intro session_parties.intro session_parties_axioms.intro)
  show "qkd_link (b64 sim_crates) (uuids sim_crates) (srv_etsi_client (sim_server h)) (cl_etsi_client (sim_client g))
      (\<lambda>c c'. True) sim_holds"
    using sim_link.qkd_link_axioms by (simp add: sim_crates_def)
qed (simp_all add: sim_crates_def sim_server_def sim_client_def daisyway_server_protocol_new_def
      daisyway_client_protocol_new_def mirrored_def)

definition sim_start :: "(u64, outfile_world, outfile_world) session" where
  "sim_start = session_start None None 1 example_out_world example_out_world"

abbreviation (input) "sim_step \<equiv> session_step (outfile_set_osk rfc4648) (outfile_set_osk rfc4648)
  sim_crates (sim_server out_handler) (sim_client out_handler) (\<lambda>c c'. True)"

text \<open>The key of the first round; no handler has a part in it.\<close>

definition sim_first_key :: key where
  "sim_first_key = offered_key sim_crates (sim_server ()) (sim_key (from_u128 std_uuid 1), replicate 32 3)"

lemma sim_offered: "offered_key sim_crates (sim_server h) q = offered_key sim_crates (sim_server ()) q"
  by (simp add: offered_key_def sim_server_def daisyway_server_protocol_new_def)

lemma is_key_sim_first: "is_key sim_first_key"
  by (simp add: sim_first_key_def offered_key_def sim_crates_def fips202.derive_is_key)

lemma sim_fetches:
  "fetch_any_key (b64 sim_crates) (srv_etsi_client (sim_server h)) 1 = (Ok (sim_key (from_u128 std_uuid 1)), 2)"
  "is_uuid i \<Longrightarrow> fetch_specific_key (b64 sim_crates) (uuids sim_crates) (cl_etsi_client (sim_client g)) i c
     = (Ok (sim_key i), c)"
proof -
  have sae: "plain_sae ''SAE_B''" "plain_sae ''SAE_A''"
    by (simp_all add: plain_sae_def url_char_def contains_def sublist_Cons_right)
  have one: "(ucast (1 :: u64) :: 128 word) = 1" "1 + 1 = (2 :: u64)" by simp_all
  show "fetch_any_key (b64 sim_crates) (srv_etsi_client (sim_server h)) 1 = (Ok (sim_key (from_u128 std_uuid 1)), 2)"
    using ref_sim.sim_fetch_any [OF sae(1), of "''http://kme-a''" 1] unfolding one
    by (simp add: sim_crates_def sim_connection_def)
  show "fetch_specific_key (b64 sim_crates) (uuids sim_crates) (cl_etsi_client (sim_client g)) i c
     = (Ok (sim_key i), c)" if "is_uuid i"
    using ref_sim.sim_fetch_specific [OF sae(2) that, of "''http://kme-b''" c]
    by (simp add: sim_crates_def sim_connection_def)
qed

lemma sim_round:
  assumes "ss h sim_first_key Fresh v = (Ok (), v')" "cs g sim_first_key Fresh w = (Ok (), w')"
  shows "(session_step ss cs sim_crates (sim_server h) (sim_client g) (\<lambda>c c'. True))\<^sup>*\<^sup>*
      (session_start None None 1 v w)
      ((session_start None None 2 v' w')\<lparr>server_keys := [sim_first_key], client_keys := [sim_first_key]\<rparr>)"
proof -
  have id: "key_id (sim_key (from_u128 std_uuid 1)) = from_u128 std_uuid 1" by (simp add: sim_key_def)
  let ?s = "session_start None None (1 :: u64) v w"
  have "(session_step ss cs sim_crates (sim_server h) (sim_client g) (\<lambda>c c'. True))\<^sup>*\<^sup>* ?s
      (?s\<lparr>kme := 2, server_sink := v', client_sink := w', server_keys := server_keys ?s @ [sim_first_key],
          client_keys := client_keys ?s @ [sim_first_key]\<rparr>)"
    unfolding sim_first_key_def sim_offered [of h, symmetric]
    by (rule sim_session.round_steps)
      (use sim_fetches std.from_u128_is_uuid assms [unfolded sim_first_key_def] in
        \<open>simp_all add: session_start_def id sim_offered [of h]\<close>)
  then show ?thesis by (simp add: session_start_def)
qed

lemma sim_file_round:
  "\<exists>v. outfile_set_osk rfc4648 out_handler sim_first_key Fresh example_out_world = (Ok (), v)
     \<and> sim_step\<^sup>*\<^sup>* sim_start ((session_start None None 2 v v)
        \<lparr>server_keys := [sim_first_key], client_keys := [sim_first_key]\<rparr>)"
proof -
  obtain v where v: "outfile_set_osk rfc4648 out_handler sim_first_key Fresh example_out_world = (Ok (), v)"
    using outfile_set_osk_rfc [OF is_key_sim_first, of example_out_world out_handler Fresh]
    by (simp add: example_out_world_def)
  from sim_round [where ss = "outfile_set_osk rfc4648" and cs = "outfile_set_osk rfc4648", OF v v] v show ?thesis by (auto simp: sim_start_def)
qed

text \<open>
  C2: key agreement. In every reachable state of a session between two peers
  configured for one tunnel and served by one QKD link, whatever the interleaving,
  wherever a connection breaks or a side ends, and whatever other users of the key
  server do, the keys that the two sides have installed are the same sequence, up
  to one last key that only one of them has installed so far.
\<close>

theorem session_keys_agree:
  assumes "qkd_link (b64 C) (uuids C) (srv_etsi_client srv) (cl_etsi_client cl) other holds"
    and "io C = mem_io" and "mirrored (srv_params srv) (cl_params cl)"
    and "(session_step ss cs C srv cl other)\<^sup>*\<^sup>* (session_start sq cq e v w) s"
  shows "(prefix (server_keys s) (client_keys s) \<and> length (client_keys s) \<le> Suc (length (server_keys s)))
    \<or> (prefix (client_keys s) (server_keys s) \<and> length (server_keys s) \<le> Suc (length (client_keys s)))"
proof -
  have "session_parties C srv cl other holds"
    by (intro session_parties.intro session_parties_axioms.intro assms(1-3))
  from session_inv_in_step [OF session_parties.session_run_inv [OF this assms(4)]]
  show ?thesis by (simp add: in_step_def)
qed

theorem session_keys_agree_witness:
  "\<exists>s. sim_step\<^sup>*\<^sup>* sim_start s \<and> server_keys s = [sim_first_key]
     \<and> (prefix (server_keys s) (client_keys s) \<or> prefix (client_keys s) (server_keys s))"
proof -
  obtain v where run: "sim_step\<^sup>*\<^sup>* sim_start ((session_start None None 2 v v)
      \<lparr>server_keys := [sim_first_key], client_keys := [sim_first_key]\<rparr>)" using sim_file_round by blast
  from session_keys_agree [OF sim_session.qkd_link_axioms sim_session.stream sim_session.tunnel
        run [unfolded sim_start_def]] run show ?thesis by (intro exI) (rule conjI, assumption, auto)
qed

text \<open>
  C3: agreement of the targets. When both sides are between negotiations and have
  installed a key, the targets of the two output key handlers hold the same key,
  the last one negotiated, for every pair of handlers that keep the contract of
  \<open>osk_sink\<close>.
\<close>

theorem session_targets_agree:
  assumes "qkd_link (b64 C) (uuids C) (srv_etsi_client srv) (cl_etsi_client cl) other holds"
    and "io C = mem_io" and "mirrored (srv_params srv) (cl_params cl)" and "shake256 (shake C)"
    and "osk_sink ss sinst srdy" and "srdy (srv_osk_handler srv) v"
    and "osk_sink cs cinst crdy" and "crdy (cl_osk_handler cl) w"
    and "(session_step ss cs C srv cl other)\<^sup>*\<^sup>* (session_start sq cq e v w) s"
    and "server_at s = Server_Idle" and "client_at s = Client_Idle" and "server_keys s \<noteq> []"
  shows "\<exists>k. sinst (srv_osk_handler srv) (server_sink s) = Some k
     \<and> cinst (cl_osk_handler cl) (client_sink s) = Some k \<and> k = last (client_keys s)"
proof -
  have "session_parties C srv cl other holds"
    by (intro session_parties.intro session_parties_axioms.intro assms(1-3))
  from session_parties.idle_keys_equal [OF this assms(9-11)]
  have "server_keys s = client_keys s" .
  with session_run_targets [OF assms(4-9)] assms(10-12) show ?thesis
    by (auto simp: server_target_ok_def client_target_ok_def)
qed

theorem session_targets_agree_witness:
  "\<exists>s. sim_step\<^sup>*\<^sup>* sim_start s
     \<and> outfile_installed rfc4648 out_handler (server_sink s) = Some sim_first_key
     \<and> outfile_installed rfc4648 out_handler (client_sink s) = Some sim_first_key"
proof -
  obtain v where run: "sim_step\<^sup>*\<^sup>* sim_start ((session_start None None 2 v v)
      \<lparr>server_keys := [sim_first_key], client_keys := [sim_first_key]\<rparr>)" using sim_file_round by blast
  have sink: "osk_sink (outfile_set_osk rfc4648) (outfile_installed rfc4648) (\<lambda>h w. True)"
    by (rule rfc.outfile.osk_sink_axioms)
  have sh: "shake256 (shake sim_crates)" by (simp add: sim_crates_def fips202.shake256_axioms)
  from session_targets_agree [OF sim_session.qkd_link_axioms sim_session.stream sim_session.tunnel sh
      sink _ sink _ run [unfolded sim_start_def]]
  have "outfile_installed rfc4648 out_handler v = Some sim_first_key" by (auto simp: session_start_def)
  with run show ?thesis by (intro exI) (rule conjI, assumption, simp add: session_start_def)
qed

text \<open>
  C4: a negotiation completes. From a state between negotiations, when the key
  server answers both sides, the connection holds and both handlers accept the key,
  there is a run in which both sides install the key derived from the offered QKD
  key and nonce and are ready for the next negotiation.
\<close>

theorem session_round_completes:
  assumes "qkd_link (b64 C) (uuids C) (srv_etsi_client srv) (cl_etsi_client cl) other holds"
    and "io C = mem_io" and "mirrored (srv_params srv) (cl_params cl)"
    and "server_at s = Server_Idle" and "client_at s = Client_Idle"
    and "to_client s = []" and "to_server s = []" and "server_quota s = None" and "client_quota s = None"
    and "is_key n"
    and "fetch_any_key (b64 C) (srv_etsi_client srv) (kme s) = (Ok k, e1)"
    and "fetch_specific_key (b64 C) (uuids C) (cl_etsi_client cl) (key_id k) e1 = (Ok k', e2)"
    and "ss (srv_osk_handler srv) (offered_key C srv (k, n)) Fresh (server_sink s) = (Ok (), v)"
    and "cs (cl_osk_handler cl) (offered_key C srv (k, n)) Fresh (client_sink s) = (Ok (), w)"
  shows "\<exists>s'. (session_step ss cs C srv cl other)\<^sup>*\<^sup>* s s'
     \<and> server_keys s' = server_keys s @ [offered_key C srv (k, n)]
     \<and> client_keys s' = client_keys s @ [offered_key C srv (k, n)]
     \<and> server_sink s' = v \<and> client_sink s' = w
     \<and> server_at s' = Server_Idle \<and> client_at s' = Client_Idle \<and> to_client s' = [] \<and> to_server s' = []"
proof -
  have "session_parties C srv cl other holds"
    by (intro session_parties.intro session_parties_axioms.intro assms(1-3))
  from session_parties.round_steps [where ss = ss and cs = cs, OF this assms(4-14)] assms(4-7) show ?thesis by fastforce
qed

theorem session_round_completes_witness:
  "\<exists>s. sim_step\<^sup>*\<^sup>* sim_start s \<and> server_keys s = [sim_first_key] \<and> client_keys s = [sim_first_key]"
proof -
  obtain v where v: "outfile_set_osk rfc4648 out_handler sim_first_key Fresh example_out_world = (Ok (), v)"
    using sim_file_round by blast
  have spec: "fetch_specific_key (b64 sim_crates) (uuids sim_crates) (cl_etsi_client (sim_client out_handler))
      (key_id (sim_key (from_u128 std_uuid 1))) 2 = (Ok (sim_key (from_u128 std_uuid 1)), 2)"
    using sim_fetches(2) [OF std.from_u128_is_uuid] by (simp add: sim_key_def)
  have any: "fetch_any_key (b64 sim_crates) (srv_etsi_client (sim_server out_handler)) (kme sim_start)
      = (Ok (sim_key (from_u128 std_uuid 1)), 2)"
    using sim_fetches(1) by (simp add: sim_start_def session_start_def)
  have n: "is_key (replicate 32 3)" by simp
  have "\<exists>s'. sim_step\<^sup>*\<^sup>* sim_start s' \<and> server_keys s' = server_keys sim_start @ [sim_first_key]
      \<and> client_keys s' = client_keys sim_start @ [sim_first_key]"
    using session_round_completes [OF sim_session.qkd_link_axioms sim_session.stream sim_session.tunnel
        _ _ _ _ _ _ n any spec, of "outfile_set_osk rfc4648" v "outfile_set_osk rfc4648" v] v
    by (fastforce simp: sim_start_def session_start_def sim_offered [of out_handler] sim_first_key_def)
  then show ?thesis by (simp add: sim_start_def session_start_def)
qed

text \<open>
  C1: end to end, with reconnects, overlapping connections and any scheduling of the
  server's host. Each connection of the server hands its keys to the connection
  manager, the manager to the deadman switch, the client the keys of its connections
  one after the other to its own deadman switch, and the workers of both switches to
  their targets. Whatever connections came before, with their reports in any order
  among \<open>ys\<close> and \<open>zs\<close>, and whatever keys they left: when both sides of the
  newest connection, number \<open>n\<close>, are between negotiations with at least one key
  negotiated, the manager has handled the events of that connection, and the workers
  have handled their requests and not erased since, the targets of both hosts hold
  the same key, the one that this connection negotiated last.
\<close>

theorem tunnel_targets_agree:
  assumes "qkd_link (b64 C) (uuids C) (srv_etsi_client srv) (cl_etsi_client cl) other holds"
    and "io C = mem_io" and "mirrored (srv_params srv) (cl_params cl)"
    and "srv_osk_handler srv = fanout_osk_handler_new (of_nat n)"
    and "(session_step (fanout_set_osk channel_send) (deadman_handler channel_send) C srv cl other)\<^sup>*\<^sup>*
           (session_start sq cq e open_channel \<lparr>deadman_client = \<lparr>queue = earlier, rx_alive = True\<rparr>\<rparr>) s"
    and "server_at s = Server_Idle" and "client_at s = Client_Idle" and "server_keys s \<noteq> []"
    and "osk_sink sset sinst srdy" and "srdy sb v" and "is_key rnd"
    and "host_run overflow_checks sset sb acts (host_start sset sb rnd params etsi h interval v) hs"
    and "manager_end hs = None" and "worker_end hs = None"
    and "handled hs = ys @ Accepted a # zs" and "length (handled hs) < 2 ^ 64"
    and "length (filter is_accept ys) = n" and "\<not> list_ex is_accept zs"
    and "filter (from_connection (of_nat n)) zs = map Notified (queue (server_sink s))"
    and "pending hs = []" and "waited hs = ws @ [(Received q, r)]"
    and "osk_sink cset cinst crdy" and "crdy cb w"
    and "caught_up cset cb (queue (deadman_client (client_sink s))) w w'"
  shows "\<exists>k. sinst sb (worker_sink hs) = Some k \<and> cinst cb w' = Some k \<and> k = last (client_keys s)"
proof -
  have "session_parties C srv cl other holds"
    by (intro session_parties.intro session_parties_axioms.intro assms(1-3))
  from session_parties.idle_keys_equal [OF this assms(5-7)]
  have keys: "server_keys s = client_keys s" .
  have events: "filter (from_connection (of_nat n)) zs
      = map (\<lambda>k. Notified (fresh_key_event (of_nat n) k)) (client_keys s)"
    using session_server_events [OF assms(5)] assms(4,6,19) keys
    by (simp add: fanout_osk_handler_new_def comp_def)
  have inv: "host_inv sset sb rnd v hs" by (rule host_run_inv [OF assms(12) host_start_inv [OF assms(11)] assms(16)])
  have "n < 2 ^ 64" using assms(15,16) length_filter_le [of is_accept ys] unfolding assms(17) by simp
  moreover have "survives (ys @ Accepted a # zs)"
    using inv assms(13,15) by (simp add: host_inv_def host_keys_def)
  ultimately obtain older where "accepted_keys (ys @ Accepted a # zs) spec_start
      = older @ map (\<lambda>k. (k, Fresh)) (client_keys s)"
    using accepted_keys_newest [OF _ assms(17) _ assms(18) events] by blast
  then have server: "received (waited hs) = map request_of older @ map (\<lambda>k. SetOsk k Fresh) (client_keys s)"
    using inv assms(13,15,20) by (simp add: host_inv_def host_keys_def request_of_def comp_def)
  have client: "queue (deadman_client (client_sink s)) = earlier @ map (\<lambda>k. SetOsk k Fresh) (client_keys s)"
    using session_client_requests [OF assms(5)] assms(7) by simp
  show ?thesis
    using osk_sink.host_target [OF assms(9) inv assms(14,10,11,21)] osk_sink.caught_up_installs(2) [OF assms(22,24,23)]
      assms(8) keys unfolding server client by (simp add: last_map)
qed

theorem tunnel_targets_agree_witness:
  "\<exists>s acts hs w'.
     (session_step (fanout_set_osk channel_send) (deadman_handler channel_send) sim_crates
         (sim_server (fanout_osk_handler_new 0)) (sim_client ()) (\<lambda>c c'. True))\<^sup>*\<^sup>*
       (session_start None None 1 open_channel \<lparr>deadman_client = open_channel\<rparr>) s
     \<and> host_run True (outfile_set_osk rfc4648) out_handler acts out_start hs
     \<and> filter (from_connection 0) (handled hs) = map Notified (queue (server_sink s))
     \<and> caught_up (outfile_set_osk rfc4648) out_handler (queue (deadman_client (client_sink s))) example_out_world w'
     \<and> outfile_installed rfc4648 out_handler (worker_sink hs) = Some (last (client_keys s))
     \<and> outfile_installed rfc4648 out_handler w' = Some (last (client_keys s))"
proof -
  let ?c1 = "\<lparr>queue = [fresh_key_event 0 sim_first_key], rx_alive = True\<rparr>"
  let ?d1 = "\<lparr>deadman_client = \<lparr>queue = [SetOsk sim_first_key Fresh], rx_alive = True\<rparr>\<rparr>"
  let ?s = "(session_start None None (2 :: u64) ?c1 ?d1)\<lparr>server_keys := [sim_first_key], client_keys := [sim_first_key]\<rparr>"
  let ?a = "\<lparr>accept_stream = (), accept_addr = ''peer''\<rparr> :: unit accept_event"
  have run: "(session_step (fanout_set_osk channel_send) (deadman_handler channel_send) sim_crates
      (sim_server (fanout_osk_handler_new 0)) (sim_client ()) (\<lambda>c c'. True))\<^sup>*\<^sup>*
      (session_start None None 1 open_channel \<lparr>deadman_client = open_channel\<rparr>) ?s"
    by (rule sim_round) (simp_all add: fanout_set_osk_def deadman_handler_def deadman_set_osk_def
        channel_send_def fresh_key_event_def fanout_osk_handler_new_def)
  obtain acts hs ws q r where host: "host_run True (outfile_set_osk rfc4648) out_handler acts out_start hs"
    and hs: "host_load hs = 0" "host_healthy hs" "waited hs = ws @ [(Received q, r)]"
      "handled hs = [] @ Accepted ?a # [Notified (fresh_key_event 0 sim_first_key)]"
    using first_key_settled [OF is_key_sim_first, of ?a] by (auto dest: host_run_trans)
  have up: "manager_end hs = None" "worker_end hs = None" "pending hs = []"
    using hs(1,2) by (simp_all add: host_healthy_def host_load_def)
  obtain w' where w': "caught_up (outfile_set_osk rfc4648) out_handler [SetOsk sim_first_key Fresh] example_out_world w'"
    using out_caught_up [of "[]" sim_first_key] is_key_sim_first by auto
  from tunnel_targets_agree [where n = 0, OF sim_session.qkd_link_axioms sim_session.stream sim_session.tunnel _ run _ _ _
      rfc.outfile.osk_sink_axioms _ is_key_new_zeroed host up(1,2) hs(4) _ _ _ _ up(3) hs(3)
      rfc.outfile.osk_sink_axioms, of out_handler example_out_world w'] w'
  have "outfile_installed rfc4648 out_handler (worker_sink hs) = Some sim_first_key
      \<and> outfile_installed rfc4648 out_handler w' = Some sim_first_key"
    by (simp add: session_start_def hs)
  with run host hs(4) w' show ?thesis
    by (intro exI [of _ ?s] exI [of _ acts] exI [of _ hs] exI [of _ w']) (simp add: session_start_def)
qed

end
